theory Spec2Isabelle
  imports Complex_Main "HOL-Library.Sublist"
begin

section \<open>Shared model\<close>

text \<open>
  Package \<open>stealth\<close> of the repository. A \<open>float64\<close> is a real number: rounding,
  infinities and NaN are outside the model. An \<open>int\<close> is an unbounded integer.
\<close>

subsection \<open>The random source\<close>

text \<open>
  The process-wide generator of \<open>math/rand\<close> is a stream of outcomes and a position in
  it: the call at position \<open>k\<close> returns \<open>float64At g k\<close> when it is
  \<open>rand.Float64()\<close> and \<open>intAt g k mod n\<close> when it is \<open>rand.Intn(n)\<close> with
  \<open>n > 0\<close>, and the next call reads position \<open>k + 1\<close>. A function that draws takes
  the position and returns the position after its last draw. \<open>rand.Intn\<close> panics
  for \<open>n \<le> 0\<close>; a caller whose argument is not a positive literal models the panic.
\<close>

record Rand =
  float64At :: "nat \<Rightarrow> real"
  intAt :: "nat \<Rightarrow> int"

definition Intn :: "Rand \<Rightarrow> nat \<Rightarrow> int \<Rightarrow> int" where
  "Intn g k n = intAt g k mod n"

text \<open>\<open>rand.Float64()\<close> returns a value of the half-open interval from 0 to 1.\<close>

definition wfRand :: "Rand \<Rightarrow> bool" where
  "wfRand g = (\<forall>k. 0 \<le> float64At g k \<and> float64At g k < 1)"

text \<open>The conversion \<open>int(x)\<close> of a \<open>float64\<close> truncates towards zero.\<close>

definition goTrunc :: "real \<Rightarrow> int" where
  "goTrunc x = (if 0 \<le> x then \<lfloor>x\<rfloor> else \<lceil>x\<rceil>)"

subsection \<open>Configuration\<close>

record StealthConfig =
  BusinessHoursOnly :: bool
  StartHour :: int
  EndHour :: int
  EnableTypos :: bool
  TypoProbability :: real
  MinTypingDelayMs :: int
  MaxTypingDelayMs :: int
  MouseSpeedMin :: real
  MouseSpeedMax :: real
  EnableOvershoot :: bool
  ScrollSpeedMin :: int
  ScrollSpeedMax :: int
  EnableScrollBack :: bool
  EnableRandomHovers :: bool
  HoverProbability :: real

text \<open>The \<open>Stealth\<close> part of the default configuration of \<open>config.go\<close>.\<close>

definition defaultStealth :: StealthConfig where
  "defaultStealth = \<lparr>BusinessHoursOnly = True, StartHour = 9, EndHour = 18,
     EnableTypos = True, TypoProbability = 3 / 100,
     MinTypingDelayMs = 50, MaxTypingDelayMs = 200,
     MouseSpeedMin = 1 / 2, MouseSpeedMax = 2, EnableOvershoot = True,
     ScrollSpeedMin = 100, ScrollSpeedMax = 400, EnableScrollBack = True,
     EnableRandomHovers = True, HoverProbability = 3 / 10\<rparr>"

text \<open>What a call can fail with: a panic of the Go runtime, or an error of the browser.\<close>

datatype error = IntnPanic | IndexPanic | BrowserError string


section \<open>Action rate limiter\<close>

text \<open>
  The rate limiter of package \<open>stealth\<close>. A \<open>time.Time\<close> is its reading on Go's
  monotonic clock in nanoseconds, a \<open>time.Duration\<close> a number of nanoseconds, both
  unbounded integers. \<open>models.ActionType\<close> is a string type. Every call of
  \<open>time.Now()\<close> in the source is a separate parameter of the model, in the order in
  which the source reads the clock, so that no two readings are identified.
\<close>

type_synonym time = int
type_synonym duration = int
type_synonym ActionType = string

definition Hour :: duration where
  "Hour = 3600 * 1000000000"

definition After :: "time \<Rightarrow> time \<Rightarrow> bool" where
  "After t u = (u < t)"

definition Before :: "time \<Rightarrow> time \<Rightarrow> bool" where
  "Before t u = (t < u)"

record Limits =
  DailyLimit :: int
  HourlyLimit :: int
  MinDelaySeconds :: int
  MaxDelaySeconds :: int

record RateLimiter =
  actionCounts :: "ActionType \<rightharpoonup> time list"
  cooldowns :: "ActionType \<rightharpoonup> time"

definition NewRateLimiter :: RateLimiter where
  "NewRateLimiter = \<lparr>actionCounts = Map.empty, cooldowns = Map.empty\<rparr>"

text \<open>Reading a Go map at a missing key gives the zero value, here the nil slice.\<close>

definition counts_of :: "RateLimiter \<Rightarrow> ActionType \<Rightarrow> time list" where
  "counts_of r a = (case actionCounts r a of None \<Rightarrow> [] | Some ts \<Rightarrow> ts)"

text \<open>The loop of \<open>cleanOldEntries\<close>: \<open>filtered\<close> is the slice built so far.\<close>

fun cleanLoop :: "time \<Rightarrow> time list \<Rightarrow> time list \<Rightarrow> time list" where
  "cleanLoop cutoff [] filtered = filtered"
| "cleanLoop cutoff (t # ts) filtered =
     cleanLoop cutoff ts (if After t cutoff then filtered @ [t] else filtered)"

definition cleanOldEntries :: "RateLimiter \<Rightarrow> ActionType \<Rightarrow> time \<Rightarrow> RateLimiter" where
  "cleanOldEntries r a now =
     (let cutoff = now + (- 24 * Hour);
          counts = counts_of r a;
          filtered = cleanLoop cutoff counts []
      in r\<lparr>actionCounts := (actionCounts r)(a \<mapsto> filtered)\<rparr>)"

text \<open>The loop of \<open>countInWindow\<close>: \<open>count\<close> is the counter so far.\<close>

fun countLoop :: "time \<Rightarrow> time list \<Rightarrow> int \<Rightarrow> int" where
  "countLoop cutoff [] count = count"
| "countLoop cutoff (t # ts) count =
     countLoop cutoff ts (if After t cutoff then count + 1 else count)"

definition countInWindow :: "time list \<Rightarrow> duration \<Rightarrow> time \<Rightarrow> int" where
  "countInWindow stamps window now = countLoop (now + (- window)) stamps 0"

text \<open>
  \<open>CanPerform\<close> reads the clock for the cooldown check (\<open>tCool\<close>, only when the
  category has a cooldown entry), in \<open>cleanOldEntries\<close> (\<open>tClean\<close>) and in the two
  calls of \<open>countInWindow\<close> (\<open>tHour\<close>, \<open>tDay\<close>). It returns its pair and the
  limiter, which the pruning has changed unless the cooldown returned early.
\<close>

definition cooldownActive :: "RateLimiter \<Rightarrow> ActionType \<Rightarrow> time \<Rightarrow> bool" where
  "cooldownActive r a tCool =
     (case cooldowns r a of None \<Rightarrow> False | Some cooldownEnd \<Rightarrow> Before tCool cooldownEnd)"

definition CanPerform ::
  "RateLimiter \<Rightarrow> ActionType \<Rightarrow> Limits \<Rightarrow> time \<Rightarrow> time \<Rightarrow> time \<Rightarrow> time
     \<Rightarrow> (bool \<times> string) \<times> RateLimiter" where
  "CanPerform r a limits tCool tClean tHour tDay =
     (if cooldownActive r a tCool then ((False, ''in cooldown''), r)
      else
        let r1 = cleanOldEntries r a tClean;
            counts = counts_of r1 a;
            hourlyCount = countInWindow counts Hour tHour
        in if HourlyLimit limits \<le> hourlyCount then ((False, ''hourly limit reached''), r1)
           else
             let dailyCount = countInWindow counts (24 * Hour) tDay
             in if DailyLimit limits \<le> dailyCount then ((False, ''daily limit reached''), r1)
                else ((True, ''''), r1))"

definition RecordAction :: "RateLimiter \<Rightarrow> ActionType \<Rightarrow> time \<Rightarrow> RateLimiter" where
  "RecordAction r a now = r\<lparr>actionCounts := (actionCounts r)(a \<mapsto> counts_of r a @ [now])\<rparr>"

definition SetCooldown :: "RateLimiter \<Rightarrow> ActionType \<Rightarrow> duration \<Rightarrow> time \<Rightarrow> RateLimiter" where
  "SetCooldown r a d now = r\<lparr>cooldowns := (cooldowns r)(a \<mapsto> now + d)\<rparr>"

definition GetRemainingQuota ::
  "RateLimiter \<Rightarrow> ActionType \<Rightarrow> Limits \<Rightarrow> time \<Rightarrow> time \<Rightarrow> time \<Rightarrow> (int \<times> int) \<times> RateLimiter" where
  "GetRemainingQuota r a limits tClean tHour tDay =
     (let r1 = cleanOldEntries r a tClean;
          counts = counts_of r1 a;
          hourlyCount = countInWindow counts Hour tHour;
          dailyCount = countInWindow counts (24 * Hour) tDay
      in ((DailyLimit limits - dailyCount, HourlyLimit limits - hourlyCount), r1))"

definition GetLastActionTime :: "RateLimiter \<Rightarrow> ActionType \<Rightarrow> time option" where
  "GetLastActionTime r a =
     (let counts = counts_of r a in if length counts = 0 then None else Some (last counts))"

definition ResetLimits :: "RateLimiter \<Rightarrow> RateLimiter" where
  "ResetLimits r = r\<lparr>actionCounts := Map.empty, cooldowns := Map.empty\<rparr>"

text \<open>
  The methods of the limiter as operations, each with its clock readings. The lock makes
  the calls sequential; \<open>WaitForNextAction\<close> is a sequence of \<open>CanPerform\<close> calls and
  of reads of the cooldown map.
\<close>

datatype limiterOp =
    OpCanPerform ActionType Limits time time time time
  | OpRecordAction ActionType time
  | OpSetCooldown ActionType duration time
  | OpGetRemainingQuota ActionType Limits time time time
  | OpGetLastActionTime ActionType
  | OpResetLimits

fun applyOp :: "RateLimiter \<Rightarrow> limiterOp \<Rightarrow> RateLimiter" where
  "applyOp r (OpCanPerform a limits tCool tClean tHour tDay) =
     snd (CanPerform r a limits tCool tClean tHour tDay)"
| "applyOp r (OpRecordAction a now) = RecordAction r a now"
| "applyOp r (OpSetCooldown a d now) = SetCooldown r a d now"
| "applyOp r (OpGetRemainingQuota a limits tClean tHour tDay) =
     snd (GetRemainingQuota r a limits tClean tHour tDay)"
| "applyOp r (OpGetLastActionTime a) = r"
| "applyOp r OpResetLimits = ResetLimits r"

fun readings :: "limiterOp \<Rightarrow> time list" where
  "readings (OpCanPerform a limits tCool tClean tHour tDay) = [tCool, tClean, tHour, tDay]"
| "readings (OpRecordAction a now) = [now]"
| "readings (OpSetCooldown a d now) = [now]"
| "readings (OpGetRemainingQuota a limits tClean tHour tDay) = [tClean, tHour, tDay]"
| "readings (OpGetLastActionTime a) = []"
| "readings OpResetLimits = []"

definition run :: "RateLimiter \<Rightarrow> limiterOp list \<Rightarrow> RateLimiter" where
  "run r ops = foldl applyOp r ops"

fun setsCooldown :: "ActionType \<Rightarrow> limiterOp \<Rightarrow> bool" where
  "setsCooldown a (OpSetCooldown b d now) = (a = b)"
| "setsCooldown a OpResetLimits = True"
| "setsCooldown a _ = False"

text \<open>
  The decision as the specification words it: the three conditions in order, each count
  taken over the category's whole record list.
\<close>

definition windowCount :: "RateLimiter \<Rightarrow> ActionType \<Rightarrow> duration \<Rightarrow> time \<Rightarrow> int" where
  "windowCount r a window now = int (length (filter (\<lambda>t. now - window < t) (counts_of r a)))"

definition CanPerform_spec ::
  "RateLimiter \<Rightarrow> ActionType \<Rightarrow> Limits \<Rightarrow> time \<Rightarrow> time \<Rightarrow> time \<Rightarrow> bool \<times> string" where
  "CanPerform_spec r a limits tCool tHour tDay =
     (if \<exists>cooldownEnd. cooldowns r a = Some cooldownEnd \<and> tCool < cooldownEnd
        then (False, ''in cooldown'')
      else if HourlyLimit limits \<le> windowCount r a Hour tHour
        then (False, ''hourly limit reached'')
      else if DailyLimit limits \<le> windowCount r a (24 * Hour) tDay
        then (False, ''daily limit reached'')
      else (True, ''''))"

text \<open>
  \<open>sortedBefore r xs\<close>: every record list of \<open>r\<close>, followed by the clock readings
  \<open>xs\<close> still to come, is ascending.
\<close>

definition sortedBefore :: "RateLimiter \<Rightarrow> time list \<Rightarrow> bool" where
  "sortedBefore r xs = (\<forall>a. sorted (counts_of r a @ xs))"

section \<open>Activity scheduler\<close>

datatype Weekday = Sunday | Monday | Tuesday | Wednesday | Thursday | Friday | Saturday

text \<open>
  \<open>IsWithinSchedule\<close> reads the clock once; \<open>hour\<close> is \<open>now.Hour()\<close> and
  \<open>weekday\<close> is \<open>now.Weekday()\<close>. It writes no field of the scheduler. The
  result comes with the position of the random source after the call.
\<close>

definition IsWithinSchedule ::
  "StealthConfig \<Rightarrow> int \<Rightarrow> Weekday \<Rightarrow> Rand \<Rightarrow> nat \<Rightarrow> bool \<times> nat" where
  "IsWithinSchedule cfg hour weekday g k =
     (if \<not> BusinessHoursOnly cfg then (True, k)
      else if hour < StartHour cfg \<or> EndHour cfg \<le> hour then (False, k)
      else if weekday = Saturday \<or> weekday = Sunday then (float64At g k < 2 / 10, k + 1)
      else (True, k))"


section \<open>Scroll profile\<close>

record scrollStep =
  position :: int
  delayMs :: int

text \<open>
  The loop of \<open>calculateScrollSteps\<close>: \<open>steps\<close> is the slice allocated before the
  loop, written at index \<open>i\<close>; each round draws once, for the base delay.
\<close>

function scrollLoop ::
  "int \<Rightarrow> int \<Rightarrow> nat \<Rightarrow> Rand \<Rightarrow> nat \<Rightarrow> nat \<Rightarrow> scrollStep list \<Rightarrow> scrollStep list \<times> nat" where
  "scrollLoop startY distance numSteps g i k steps =
     (if i < numSteps then
        let t = real (i + 1) / real numSteps;
            eased = 1 - (1 - t) ^ 3;
            position = startY + goTrunc (real_of_int distance * eased);
            baseDelay = 20 + Intn g k 30;
            speedFactor = sin (pi * t);
            delay = goTrunc (real_of_int baseDelay / (5 / 10 + speedFactor * (5 / 10)))
        in scrollLoop startY distance numSteps g (i + 1) (k + 1)
             (steps[i := \<lparr>position = position, delayMs = delay\<rparr>])
      else (steps, k))"
  by pat_completeness auto
termination
  by (relation "measure (\<lambda>(startY, distance, numSteps, g, i, k, steps). numSteps - i)") auto

declare scrollLoop.simps [simp del]

definition numScrollSteps :: "int \<Rightarrow> int \<Rightarrow> int" where
  "numScrollSteps startY endY =
     (let distance = endY - startY;
          absDistance = goTrunc \<bar>real_of_int distance\<bar>;
          numSteps = goTrunc (max 5 (real_of_int absDistance / 50))
      in if 30 < numSteps then 30 else numSteps)"

definition calculateScrollSteps :: "int \<Rightarrow> int \<Rightarrow> Rand \<Rightarrow> nat \<Rightarrow> scrollStep list \<times> nat" where
  "calculateScrollSteps startY endY g k =
     (let distance = endY - startY;
          numSteps = nat (numScrollSteps startY endY);
          steps = replicate numSteps \<lparr>position = 0, delayMs = 0\<rparr>
      in scrollLoop startY distance numSteps g 0 k steps)"

text \<open>
  \<open>ScrollTo\<close> up to the steps it generates: \<open>pos\<close> is what \<open>getScrollPosition\<close>
  returned, the result is the slice \<open>steps\<close> that the method then sends to the
  browser one by one, and the empty list when the method returns before generating any.
  Sending the steps and the optional overshoot correction after them change neither the
  slice nor its length.
\<close>

definition ScrollTo :: "error + int \<Rightarrow> int \<Rightarrow> Rand \<Rightarrow> nat \<Rightarrow> error + scrollStep list" where
  "ScrollTo pos targetY g k =
     (case pos of
        Inl err \<Rightarrow> Inl err
      | Inr currentY \<Rightarrow>
          let distance = targetY - currentY
          in if \<bar>real_of_int distance\<bar> < 10 then Inr []
             else Inr (fst (calculateScrollSteps currentY targetY g k)))"

text \<open>The step count as the specification writes it.\<close>

definition clamp :: "int \<Rightarrow> int \<Rightarrow> int \<Rightarrow> int" where
  "clamp x lo hi = (if x < lo then lo else if hi < x then hi else x)"

definition stepCount_spec :: "int \<Rightarrow> int \<Rightarrow> int" where
  "stepCount_spec currentY targetY = clamp (max 5 (\<bar>targetY - currentY\<bar> div 50)) 5 30"


section \<open>Typing simulator\<close>











subsection \<open>Delay after a keystroke\<close>










section \<open>Mouse movement\<close>

record Point =
  X :: real
  Y :: real

definition generateControlPoints ::
  "real \<Rightarrow> real \<Rightarrow> real \<Rightarrow> real \<Rightarrow> real \<Rightarrow> Rand \<Rightarrow> nat \<Rightarrow> (Point \<times> Point) \<times> nat" where
  "generateControlPoints startX startY endX endY distance g k =
     (let curvature = distance * (1 / 10 + float64At g k * (3 / 10));
          curvature = (if float64At g (k + 1) < 5 / 10 then - curvature else curvature);
          dx = endX - startX;
          dy = endY - startY;
          length = sqrt (dx * dx + dy * dy);
          length = (if length = 0 then 1 else length);
          perpX = - dy / length;
          perpY = dx / length;
          ctrl1 = \<lparr>X = startX + dx * (25 / 100)
                        + perpX * curvature * (5 / 10 + float64At g (k + 2) * (5 / 10)),
                   Y = startY + dy * (25 / 100)
                        + perpY * curvature * (5 / 10 + float64At g (k + 3) * (5 / 10))\<rparr>;
          ctrl2 = \<lparr>X = startX + dx * (75 / 100)
                        + perpX * curvature * (5 / 10 + float64At g (k + 4) * (5 / 10)),
                   Y = startY + dy * (75 / 100)
                        + perpY * curvature * (5 / 10 + float64At g (k + 5) * (5 / 10))\<rparr>
      in ((ctrl1, ctrl2), k + 6))"

definition cubicBezier :: "real \<Rightarrow> real \<Rightarrow> real \<Rightarrow> real \<Rightarrow> real \<Rightarrow> real" where
  "cubicBezier t p0 p1 p2 p3 =
     (let mt = 1 - t
      in mt * mt * mt * p0 + 3 * mt * mt * t * p1 + 3 * mt * t * t * p2 + t * t * t * p3)"

text \<open>
  The loop of \<open>generateBezierPath\<close>: \<open>points\<close> is the slice allocated before the
  loop, written at index \<open>i\<close>; a round draws twice when it adds the jitter.
\<close>

function bezierLoop ::
  "Point \<Rightarrow> Point \<Rightarrow> Point \<Rightarrow> Point \<Rightarrow> nat \<Rightarrow> Rand \<Rightarrow> nat \<Rightarrow> nat \<Rightarrow> Point list
     \<Rightarrow> Point list \<times> nat" where
  "bezierLoop start ctrl1 ctrl2 dest numPoints g i k points =
     (if i < numPoints then
        let t = real i / real_of_int (int numPoints - 1);
            x = cubicBezier t (X start) (X ctrl1) (X ctrl2) (X dest);
            y = cubicBezier t (Y start) (Y ctrl1) (Y ctrl2) (Y dest)
        in if 0 < i \<and> int i < int numPoints - 1 then
             bezierLoop start ctrl1 ctrl2 dest numPoints g (i + 1) (k + 2)
               (points[i := \<lparr>X = x + (float64At g k - 5 / 10) * 2,
                              Y = y + (float64At g (k + 1) - 5 / 10) * 2\<rparr>])
           else
             bezierLoop start ctrl1 ctrl2 dest numPoints g (i + 1) k
               (points[i := \<lparr>X = x, Y = y\<rparr>])
      else (points, k))"
  by pat_completeness auto
termination
  by (relation "measure (\<lambda>(start, ctrl1, ctrl2, dest, numPoints, g, i, k, points). numPoints - i)")
    auto

declare bezierLoop.simps [simp del]

definition pathDistance :: "real \<Rightarrow> real \<Rightarrow> real \<Rightarrow> real \<Rightarrow> real" where
  "pathDistance startX startY endX endY = sqrt ((endX - startX) ^ 2 + (endY - startY) ^ 2)"

definition generateBezierPath ::
  "real \<Rightarrow> real \<Rightarrow> real \<Rightarrow> real \<Rightarrow> Rand \<Rightarrow> nat \<Rightarrow> Point list \<times> nat" where
  "generateBezierPath startX startY endX endY g k =
     (let distance = pathDistance startX startY endX endY;
          numPoints = nat (goTrunc (max 20 (distance / 10)));
          ((ctrl1, ctrl2), k1) = generateControlPoints startX startY endX endY distance g k;
          points = replicate numPoints \<lparr>X = 0, Y = 0\<rparr>
      in bezierLoop \<lparr>X = startX, Y = startY\<rparr> ctrl1 ctrl2 \<lparr>X = endX, Y = endY\<rparr>
           numPoints g 0 k1 points)"

subsection \<open>Moving along the path\<close>

record MouseController =
  config :: StealthConfig
  lastX :: real
  lastY :: real

definition calculateSpeedFactor :: "StealthConfig \<Rightarrow> real \<Rightarrow> real" where
  "calculateSpeedFactor cfg progress =
     (let baseFactor = sin (pi * progress);
          minSpeed = MouseSpeedMin cfg;
          maxSpeed = MouseSpeedMax cfg
      in minSpeed + baseFactor * (maxSpeed - minSpeed))"

text \<open>
  What the mouse is told: a move to a point, then a sleep of so many milliseconds. A
  delay is \<open>None\<close> when the speed factor is 0: the quotient is then infinite and Go
  does not define its conversion to a duration. The browser is taken not to fail
  (\<open>MustMoveTo\<close> panics when it does).
\<close>

type_synonym moveStep = "Point \<times> int option"

text \<open>The loop of \<open>MoveTo\<close> over the points, \<open>n\<close> being their number.\<close>

fun moveLoop :: "StealthConfig \<Rightarrow> Rand \<Rightarrow> nat \<Rightarrow> nat \<Rightarrow> nat \<Rightarrow> Point list \<Rightarrow> moveStep list \<times> nat" where
  "moveLoop cfg g n i k [] = ([], k)"
| "moveLoop cfg g n i k (point # points) =
     (let progress = real i / real n;
          speedFactor = calculateSpeedFactor cfg progress;
          baseDelay = 5 + Intn g k 10;
          delay = (if speedFactor = 0 then None
                   else Some (goTrunc (real_of_int baseDelay / speedFactor)));
          (steps, k') = moveLoop cfg g n (i + 1) (k + 1) points
      in ((point, delay) # steps, k'))"

definition applyOvershoot :: "real \<Rightarrow> real \<Rightarrow> Rand \<Rightarrow> nat \<Rightarrow> moveStep list \<times> nat" where
  "applyOvershoot targetX targetY g k =
     (let overshootDist = 5 + float64At g k * 10;
          angle = float64At g (k + 1) * 2 * pi;
          overshootX = targetX + cos angle * overshootDist;
          overshootY = targetY + sin angle * overshootDist
      in ([(\<lparr>X = overshootX, Y = overshootY\<rparr>, Some (30 + Intn g (k + 2) 50)),
           (\<lparr>X = targetX, Y = targetY\<rparr>, Some (20 + Intn g (k + 3) 30))], k + 4))"

text \<open>
  \<open>MoveTo\<close> returns the steps along the path, the steps of the overshoot (none when
  it is not applied), the controller with the new position, and the position of the
  random source.
\<close>

definition MoveTo ::
  "MouseController \<Rightarrow> real \<Rightarrow> real \<Rightarrow> Rand \<Rightarrow> nat
     \<Rightarrow> moveStep list \<times> moveStep list \<times> MouseController \<times> nat" where
  "MoveTo m targetX targetY g k =
     (let (points, k1) = generateBezierPath (lastX m) (lastY m) targetX targetY g k;
          (steps, k2) = moveLoop (config m) g (length points) 0 k1 points;
          (over, k3) =
             (if EnableOvershoot (config m) then
                if float64At g k2 < 3 / 10 then applyOvershoot targetX targetY g (k2 + 1)
                else ([], k2 + 1)
              else ([], k2))
      in (steps, over, m\<lparr>lastX := targetX, lastY := targetY\<rparr>, k3))"

text \<open>
  The curve without jitter at index \<open>i\<close> of \<open>n\<close> points, and the position in the
  random source of the first jitter draw of index \<open>i\<close>, given that the loop starts
  at position \<open>k\<close>.
\<close>

definition curvePoint :: "Point \<Rightarrow> Point \<Rightarrow> Point \<Rightarrow> Point \<Rightarrow> nat \<Rightarrow> nat \<Rightarrow> Point" where
  "curvePoint start ctrl1 ctrl2 dest n i =
     (let t = real i / real_of_int (int n - 1)
      in \<lparr>X = cubicBezier t (X start) (X ctrl1) (X ctrl2) (X dest),
          Y = cubicBezier t (Y start) (Y ctrl1) (Y ctrl2) (Y dest)\<rparr>)"

definition jitterAt :: "nat \<Rightarrow> nat \<Rightarrow> nat" where
  "jitterAt k i = k + 2 * (i - 1)"

definition loopPoint :: "Point \<Rightarrow> Point \<Rightarrow> Point \<Rightarrow> Point \<Rightarrow> nat \<Rightarrow> Rand \<Rightarrow> nat \<Rightarrow> nat \<Rightarrow> Point" where
  "loopPoint start ctrl1 ctrl2 dest n g k i =
     (let p = curvePoint start ctrl1 ctrl2 dest n i
      in if 0 < i \<and> int i < int n - 1
         then \<lparr>X = X p + (float64At g (jitterAt k i) - 5 / 10) * 2,
               Y = Y p + (float64At g (jitterAt k i + 1) - 5 / 10) * 2\<rparr>
         else p)"

text \<open>The delay \<open>MoveTo\<close> computes for index \<open>i\<close> of \<open>n\<close> points from the draw at \<open>k\<close>.\<close>

definition stepDelay :: "StealthConfig \<Rightarrow> Rand \<Rightarrow> nat \<Rightarrow> nat \<Rightarrow> nat \<Rightarrow> int option" where
  "stepDelay cfg g n i k =
     (let speedFactor = calculateSpeedFactor cfg (real i / real n)
      in if speedFactor = 0 then None
         else Some (goTrunc (real_of_int (5 + Intn g k 10) / speedFactor)))"


section \<open>Timing\<close>

text \<open>
  The loop \<open>for u1 == 0\<close> of \<open>normalRandom\<close> draws again while the value is 0.
  It does not end on a source that gives 0 for ever, so its result is an option:
  \<open>None\<close> stands for the call that never returns.
\<close>

partial_function (option) redraw :: "Rand \<Rightarrow> real \<Rightarrow> nat \<Rightarrow> (real \<times> nat) option" where
  "redraw g u1 k = (if u1 = 0 then redraw g (float64At g k) (k + 1) else Some (u1, k))"

definition normalRandom :: "real \<Rightarrow> real \<Rightarrow> Rand \<Rightarrow> nat \<Rightarrow> (real \<times> nat) option" where
  "normalRandom mean stdDev g k =
     (let u1 = float64At g k;
          u2 = float64At g (k + 1)
      in case redraw g u1 (k + 2) of
           None \<Rightarrow> None
         | Some (u1, k') \<Rightarrow>
             let z = sqrt (- 2 * ln u1) * cos (2 * pi * u2)
             in Some (mean + z * stdDev, k'))"

text \<open>
  \<open>RandomDelay\<close> returns the clamped delay in seconds and the duration it sleeps, in
  nanoseconds (\<open>time.Second\<close> is \<open>10^9\<close>), with the position of the random source.
\<close>

definition RandomDelay :: "int \<Rightarrow> int \<Rightarrow> Rand \<Rightarrow> nat \<Rightarrow> (real \<times> int \<times> nat) option" where
  "RandomDelay minSeconds maxSeconds g k =
     (let (minSeconds, maxSeconds) =
            (if maxSeconds \<le> minSeconds then (1, 3) else (minSeconds, maxSeconds));
          mean = real_of_int (minSeconds + maxSeconds) / 2;
          stdDev = real_of_int (maxSeconds - minSeconds) / 4
      in case normalRandom mean stdDev g k of
           None \<Rightarrow> None
         | Some (delay, k') \<Rightarrow>
             let delay = (if delay < real_of_int minSeconds then real_of_int minSeconds else delay);
                 delay = (if real_of_int maxSeconds < delay then real_of_int maxSeconds else delay);
                 duration = goTrunc (delay * 1000000000)
             in Some (delay, duration, k'))"


subsection \<open>The two loops\<close>

lemma cleanLoop_filter:
  "cleanLoop cutoff ts filtered = filtered @ filter (\<lambda>t. cutoff < t) ts"
  by (induction ts arbitrary: filtered) (simp_all add: After_def)

lemma countLoop_filter:
  "countLoop cutoff ts count = count + int (length (filter (\<lambda>t. cutoff < t) ts))"
  by (induction ts arbitrary: count) (simp_all add: After_def)

lemma counts_of_clean:
  "counts_of (cleanOldEntries r a now) b =
     (if b = a then filter (\<lambda>t. now - 24 * Hour < t) (counts_of r a) else counts_of r b)"
  by (simp add: cleanOldEntries_def counts_of_def cleanLoop_filter Let_def)

lemma cooldowns_clean [simp]: "cooldowns (cleanOldEntries r a now) = cooldowns r"
  by (simp add: cleanOldEntries_def Let_def)

lemma countInWindow_filter:
  "countInWindow ts window now = int (length (filter (\<lambda>t. now - window < t) ts))"
  by (simp add: countInWindow_def countLoop_filter)

lemma count_after_clean:
  assumes "cutoff1 \<le> cutoff2"
  shows "filter (\<lambda>t. cutoff2 < t) (filter (\<lambda>t. cutoff1 < t) ts) = filter (\<lambda>t. cutoff2 < (t::int)) ts"
  using assms by (induction ts) auto

subsection \<open>What each operation does to the two maps\<close>

lemma counts_of_RecordAction:
  "counts_of (RecordAction r a now) b = (if b = a then counts_of r a @ [now] else counts_of r b)"
  by (simp add: RecordAction_def counts_of_def)

lemma cooldowns_RecordAction [simp]: "cooldowns (RecordAction r a now) = cooldowns r"
  by (simp add: RecordAction_def)

lemma cooldowns_CanPerform [simp]:
  "cooldowns (snd (CanPerform r a limits tCool tClean tHour tDay)) = cooldowns r"
  by (simp add: CanPerform_def Let_def)

lemma cooldowns_GetRemainingQuota [simp]:
  "cooldowns (snd (GetRemainingQuota r a limits tClean tHour tDay)) = cooldowns r"
  by (simp add: GetRemainingQuota_def Let_def)

lemma cooldowns_applyOp:
  "\<not> setsCooldown a op \<Longrightarrow> cooldowns (applyOp r op) a = cooldowns r a"
  by (cases op) (simp_all add: SetCooldown_def)

lemma cooldowns_run:
  "\<forall>op \<in> set ops. \<not> setsCooldown a op \<Longrightarrow> cooldowns (run r ops) a = cooldowns r a"
  unfolding run_def
  by (induction ops arbitrary: r) (simp_all add: cooldowns_applyOp)

lemma counts_of_cooldowns_update [simp]:
  "counts_of (s\<lparr>cooldowns := c\<rparr>) = counts_of s"
  by (simp add: counts_of_def fun_eq_iff)

lemma cleanOldEntries_cooldowns_update:
  "cleanOldEntries (s\<lparr>cooldowns := c\<rparr>) a now = (cleanOldEntries s a now)\<lparr>cooldowns := c\<rparr>"
  by (simp add: cleanOldEntries_def Let_def)

lemma counts_of_funpow_Record:
  "counts_of (((\<lambda>s. RecordAction s a now) ^^ n) r) a = counts_of r a @ replicate n now"
  by (induction n) (simp_all add: counts_of_RecordAction replicate_append_same)

lemma cooldowns_funpow_Record:
  "cooldowns (((\<lambda>s. RecordAction s a now) ^^ n) r) = cooldowns r"
  by (induction n) simp_all

lemma counts_of_NewRateLimiter [simp]: "counts_of NewRateLimiter a = []"
  by (simp add: counts_of_def NewRateLimiter_def)

lemma counts_of_SetCooldown [simp]: "counts_of (SetCooldown r a d now) = counts_of r"
  by (simp add: SetCooldown_def)

lemma counts_of_CanPerform:
  "counts_of (snd (CanPerform r a limits tCool tClean tHour tDay)) b =
     (if b = a \<and> \<not> cooldownActive r a tCool
      then filter (\<lambda>t. tClean - 24 * Hour < t) (counts_of r a) else counts_of r b)"
  by (simp add: CanPerform_def Let_def counts_of_clean)

subsection \<open>The order of the denial conditions\<close>

lemma CanPerform_result:
  assumes "tClean \<le> tHour" and "tClean \<le> tDay"
  shows "fst (CanPerform r a limits tCool tClean tHour tDay) =
         CanPerform_spec r a limits tCool tHour tDay"
proof -
  have h: "tClean - 24 * Hour \<le> tHour - Hour"
    using assms by (simp add: Hour_def)
  have d: "tClean - 24 * Hour \<le> tDay - 24 * Hour"
    using assms by simp
  have ca: "cooldownActive r a tCool =
            (\<exists>cooldownEnd. cooldowns r a = Some cooldownEnd \<and> tCool < cooldownEnd)"
    by (simp add: cooldownActive_def Before_def split: option.splits)
  have ch: "countInWindow (counts_of (cleanOldEntries r a tClean) a) Hour tHour =
            windowCount r a Hour tHour"
    by (simp add: countInWindow_filter counts_of_clean windowCount_def
        count_after_clean [OF h] del: filter_filter)
  have cd: "countInWindow (counts_of (cleanOldEntries r a tClean) a) (24 * Hour) tDay =
            windowCount r a (24 * Hour) tDay"
    by (simp add: countInWindow_filter counts_of_clean windowCount_def
        count_after_clean [OF d] del: filter_filter)
  show ?thesis
    unfolding CanPerform_def CanPerform_spec_def ca Let_def ch cd by simp
qed

lemma ten_records_fill_the_hour:
  "10 \<le> windowCount (((\<lambda>s. RecordAction s a now) ^^ 10) r) a Hour now"
  unfolding windowCount_def counts_of_funpow_Record by (simp add: Hour_def)

text \<open>
  Claim C1. Whenever the clock does not run backwards between the pruning and the two
  counts, the pair returned by \<open>CanPerform\<close> is the one the specification describes:
  the cooldown is tested first, then the number of records of the trailing hour against
  \<open>HourlyLimit\<close>, then the number of records of the trailing 24 hours against
  \<open>DailyLimit\<close>, the first condition that fires gives the reason, and the answer is
  allowed with the empty reason when none fires. In particular, with
  \<open>HourlyLimit = 10\<close>, no cooldown and ten actions recorded at the instant \<open>now\<close>,
  the call at \<open>now\<close> returns false with the reason "hourly limit reached".
\<close>

theorem CanPerform_order:
  "(tClean \<le> tHour \<and> tClean \<le> tDay \<longrightarrow>
      fst (CanPerform r a limits tCool tClean tHour tDay) =
      CanPerform_spec r a limits tCool tHour tDay)
   \<and> (cooldowns r a = None \<and> HourlyLimit limits = 10 \<longrightarrow>
      fst (CanPerform (((\<lambda>s. RecordAction s a now) ^^ 10) r) a limits now now now now) =
      (False, ''hourly limit reached''))"
proof (intro conjI impI)
  assume "tClean \<le> tHour \<and> tClean \<le> tDay"
  then show "fst (CanPerform r a limits tCool tClean tHour tDay) =
             CanPerform_spec r a limits tCool tHour tDay"
    by (simp add: CanPerform_result)
next
  assume "cooldowns r a = None \<and> HourlyLimit limits = 10"
  then show "fst (CanPerform (((\<lambda>s. RecordAction s a now) ^^ 10) r) a limits now now now now) =
             (False, ''hourly limit reached'')"
    using ten_records_fill_the_hour [of a now r]
    by (simp add: CanPerform_result CanPerform_spec_def cooldowns_funpow_Record)
qed

theorem CanPerform_order_witness:
  "(5::int) \<le> 5 \<and> cooldowns NewRateLimiter ''connection'' = None
   \<and> HourlyLimit \<lparr>DailyLimit = 50, HourlyLimit = 10, MinDelaySeconds = 30, MaxDelaySeconds = 90\<rparr> = 10
   \<and> fst (CanPerform NewRateLimiter ''connection''
        \<lparr>DailyLimit = 50, HourlyLimit = 10, MinDelaySeconds = 30, MaxDelaySeconds = 90\<rparr> 5 5 5 5) =
      (True, [])
   \<and> fst (CanPerform (((\<lambda>s. RecordAction s ''connection'' 5) ^^ 10) NewRateLimiter) ''connection''
        \<lparr>DailyLimit = 50, HourlyLimit = 10, MinDelaySeconds = 30, MaxDelaySeconds = 90\<rparr> 5 5 5 5) =
      (False, ''hourly limit reached'')"
  using CanPerform_order [of 5 5 5 NewRateLimiter "''connection''"
      "\<lparr>DailyLimit = 50, HourlyLimit = 10, MinDelaySeconds = 30, MaxDelaySeconds = 90\<rparr>" 5 5]
  by (simp add: NewRateLimiter_def CanPerform_spec_def windowCount_def counts_of_def)

subsection \<open>Cooldowns\<close>

lemma CanPerform_blocked:
  "cooldowns s a = Some e \<Longrightarrow> tCool < e \<Longrightarrow>
   CanPerform s a limits tCool tClean tHour tDay = ((False, ''in cooldown''), s)"
  by (simp add: CanPerform_def cooldownActive_def Before_def)

lemma CanPerform_expired:
  "cooldowns s a = Some e \<Longrightarrow> e \<le> tCool \<Longrightarrow>
   fst (CanPerform s a limits tCool tClean tHour tDay) =
   fst (CanPerform (s\<lparr>cooldowns := (cooldowns s)(a := None)\<rparr>) a limits tCool tClean tHour tDay)"
  by (simp add: CanPerform_def cooldownActive_def Before_def Let_def
      cleanOldEntries_cooldowns_update)

text \<open>
  Claim C2. \<open>SetCooldown\<close> called at \<open>t0\<close> stores the absolute instant
  \<open>t0 + d\<close> for the category. After any further operations that neither set this
  category's cooldown again nor reset the limiter, the entry is still that instant; a
  \<open>CanPerform\<close> that reads the clock strictly before it returns false with the reason
  "in cooldown" and leaves the limiter as it is; one that reads the clock at or after it
  answers exactly as a limiter without the entry would, and the entry is still in the
  map afterwards, so nothing had to delete it.
\<close>

theorem cooldown_blocks_until_end:
  assumes "\<forall>op \<in> set ops. \<not> setsCooldown a op"
  shows "cooldowns (SetCooldown r a d t0) a = Some (t0 + d)
     \<and> cooldowns (run (SetCooldown r a d t0) ops) a = Some (t0 + d)
     \<and> (tCool < t0 + d \<longrightarrow>
          CanPerform (run (SetCooldown r a d t0) ops) a limits tCool tClean tHour tDay =
            ((False, ''in cooldown''), run (SetCooldown r a d t0) ops))
     \<and> (t0 + d \<le> tCool \<longrightarrow>
          fst (CanPerform (run (SetCooldown r a d t0) ops) a limits tCool tClean tHour tDay) =
          fst (CanPerform ((run (SetCooldown r a d t0) ops)
                 \<lparr>cooldowns := (cooldowns (run (SetCooldown r a d t0) ops))(a := None)\<rparr>)
                 a limits tCool tClean tHour tDay)
          \<and> cooldowns (snd (CanPerform (run (SetCooldown r a d t0) ops)
                              a limits tCool tClean tHour tDay)) a = Some (t0 + d))"
proof -
  have c0: "cooldowns (SetCooldown r a d t0) a = Some (t0 + d)"
    by (simp add: SetCooldown_def)
  have c: "cooldowns (run (SetCooldown r a d t0) ops) a = Some (t0 + d)"
    using cooldowns_run [OF assms] c0 by simp
  show ?thesis
    using c0 c CanPerform_blocked [OF c] CanPerform_expired [OF c] by simp
qed

theorem cooldown_blocks_until_end_witness:
  "\<not> setsCooldown ''message'' (OpRecordAction ''message'' 1001)
   \<and> cooldowns (SetCooldown NewRateLimiter ''message'' 100 1000) ''message'' = Some 1100
   \<and> fst (CanPerform (run (SetCooldown NewRateLimiter ''message'' 100 1000)
             [OpRecordAction ''message'' 1001]) ''message''
        \<lparr>DailyLimit = 100, HourlyLimit = 20, MinDelaySeconds = 20, MaxDelaySeconds = 60\<rparr>
        1099 1099 1099 1099) = (False, ''in cooldown'')
   \<and> fst (CanPerform (run (SetCooldown NewRateLimiter ''message'' 100 1000)
             [OpRecordAction ''message'' 1001]) ''message''
        \<lparr>DailyLimit = 100, HourlyLimit = 20, MinDelaySeconds = 20, MaxDelaySeconds = 60\<rparr>
        1100 1100 1100 1100) = (True, [])"
proof -
  let ?lim = "\<lparr>DailyLimit = 100, HourlyLimit = 20, MinDelaySeconds = 20, MaxDelaySeconds = 60\<rparr>"
  let ?s = "run (SetCooldown NewRateLimiter ''message'' 100 1000) [OpRecordAction ''message'' 1001]"
  have h: "\<forall>op \<in> set [OpRecordAction ''message'' 1001]. \<not> setsCooldown ''message'' op"
    by simp
  note w = cooldown_blocks_until_end [OF h, of NewRateLimiter 100 1000]
  have free: "fst (CanPerform (?s\<lparr>cooldowns := (cooldowns ?s)(''message'' := None)\<rparr>)
                ''message'' ?lim 1100 1100 1100 1100) = (True, [])"
    by (simp add: run_def CanPerform_result CanPerform_spec_def windowCount_def
        counts_of_RecordAction)
  show ?thesis
    using w [of 1099 ?lim 1099 1099 1099] w [of 1100 ?lim 1100 1100 1100] free
    by simp
qed

subsection \<open>The record lists stay sorted\<close>

lemma sorted_filter_append:
  "sorted (ts @ xs) \<Longrightarrow> sorted (filter P ts @ (xs::int list))"
  by (auto simp: sorted_append sorted_filter [where f = "\<lambda>x. x", simplified])

lemma sortedBefore_clean:
  "sortedBefore r xs \<Longrightarrow> sortedBefore (cleanOldEntries r a now) xs"
  by (simp add: sortedBefore_def counts_of_clean sorted_filter_append)

lemma sortedBefore_drop:
  "sortedBefore r (ys @ xs) \<Longrightarrow> sortedBefore r xs"
  by (auto simp: sortedBefore_def sorted_append)

lemma sortedBefore_applyOp:
  "sortedBefore r (readings op @ xs) \<Longrightarrow> sortedBefore (applyOp r op) xs"
proof (cases op)
  case (OpCanPerform a limits tCool tClean tHour tDay)
  assume "sortedBefore r (readings op @ xs)"
  then have s: "sortedBefore r xs" by (rule sortedBefore_drop)
  show ?thesis
    using s OpCanPerform by (simp add: CanPerform_def Let_def sortedBefore_clean)
next
  case (OpRecordAction a now)
  assume "sortedBefore r (readings op @ xs)"
  then show ?thesis
    using OpRecordAction
    by (auto simp: sortedBefore_def counts_of_RecordAction sorted_append)
next
  case (OpSetCooldown a d now)
  assume "sortedBefore r (readings op @ xs)"
  then have s: "sortedBefore r xs" by (rule sortedBefore_drop)
  then show ?thesis
    using OpSetCooldown by (simp add: SetCooldown_def sortedBefore_def)
next
  case (OpGetRemainingQuota a limits tClean tHour tDay)
  assume "sortedBefore r (readings op @ xs)"
  then have s: "sortedBefore r xs" by (rule sortedBefore_drop)
  show ?thesis
    using s OpGetRemainingQuota by (simp add: GetRemainingQuota_def Let_def sortedBefore_clean)
next
  case (OpGetLastActionTime a)
  assume "sortedBefore r (readings op @ xs)"
  then show ?thesis using OpGetLastActionTime by simp
next
  case OpResetLimits
  assume "sortedBefore r (readings op @ xs)"
  then have "sorted xs" by (simp add: sortedBefore_def sorted_append)
  then show ?thesis using OpResetLimits
    by (simp add: ResetLimits_def sortedBefore_def counts_of_def)
qed

lemma sortedBefore_run:
  "sortedBefore r (concat (map readings ops) @ xs) \<Longrightarrow> sortedBefore (run r ops) xs"
  unfolding run_def
proof (induction ops arbitrary: r)
  case Nil
  then show ?case by simp
next
  case (Cons op ops)
  then show ?case by (simp add: sortedBefore_applyOp)
qed

text \<open>
  Claim C9. \<open>RecordAction\<close> appends the current time at the end of the category's
  list and changes nothing else in it, the pruning of \<open>cleanOldEntries\<close> leaves a
  subsequence of the list (the survivors in their order), and after any sequence of
  operations on a new limiter whose clock readings never decrease, every category's list
  is sorted in ascending order.
\<close>

theorem actionCounts_sorted:
  assumes "sorted (concat (map readings ops))"
  shows "sorted (counts_of (run NewRateLimiter ops) a)
     \<and> counts_of (RecordAction r a now) a = counts_of r a @ [now]
     \<and> subseq (counts_of (cleanOldEntries r a now) a) (counts_of r a)"
proof -
  have "sortedBefore NewRateLimiter (concat (map readings ops) @ [])"
    using assms by (simp add: sortedBefore_def counts_of_def NewRateLimiter_def)
  then have "sortedBefore (run NewRateLimiter ops) []"
    by (rule sortedBefore_run)
  then have "sorted (counts_of (run NewRateLimiter ops) a)"
    by (simp add: sortedBefore_def)
  then show ?thesis
    by (simp add: counts_of_RecordAction counts_of_clean)
qed

theorem actionCounts_sorted_witness:
  "sorted (concat (map readings [OpRecordAction ''search'' 1, OpRecordAction ''search'' 2,
       OpCanPerform ''search''
         \<lparr>DailyLimit = 500, HourlyLimit = 50, MinDelaySeconds = 5, MaxDelaySeconds = 15\<rparr> 3 3 3 4]))
   \<and> sorted (counts_of (run NewRateLimiter [OpRecordAction ''search'' 1, OpRecordAction ''search'' 2,
       OpCanPerform ''search''
         \<lparr>DailyLimit = 500, HourlyLimit = 50, MinDelaySeconds = 5, MaxDelaySeconds = 15\<rparr> 3 3 3 4])
       ''search'')
   \<and> counts_of (run NewRateLimiter [OpRecordAction ''search'' 1, OpRecordAction ''search'' 2,
       OpCanPerform ''search''
         \<lparr>DailyLimit = 500, HourlyLimit = 50, MinDelaySeconds = 5, MaxDelaySeconds = 15\<rparr> 3 3 3 4])
       ''search'' = [1, 2]"
proof -
  let ?ops = "[OpRecordAction ''search'' 1, OpRecordAction ''search'' 2,
       OpCanPerform ''search''
         \<lparr>DailyLimit = 500, HourlyLimit = 50, MinDelaySeconds = 5, MaxDelaySeconds = 15\<rparr> 3 3 3 4]"
  have h: "sorted (concat (map readings ?ops))" by simp
  have c: "counts_of (run NewRateLimiter ?ops) ''search'' = [1, 2]"
    by (simp add: run_def counts_of_CanPerform counts_of_RecordAction Hour_def)
  show ?thesis
    using h c actionCounts_sorted [OF h, of "''search''"] by simp
qed

subsection \<open>Schedule gate\<close>

text \<open>
  Claim C8. With business-hours gating disabled \<open>IsWithinSchedule\<close> is true whatever
  the clock says. With gating enabled it is false when the hour is outside
  \<open>[StartHour, EndHour)\<close>, true on a weekday inside it, and on a Saturday or Sunday
  inside it true exactly when the value drawn by this call is below 0.2; the call
  consumes that draw, so the next call decides on the next draw of the source.
\<close>

theorem IsWithinSchedule_cases:
  "(\<not> BusinessHoursOnly cfg \<longrightarrow> IsWithinSchedule cfg hour weekday g k = (True, k))
   \<and> (BusinessHoursOnly cfg \<and> (hour < StartHour cfg \<or> EndHour cfg \<le> hour) \<longrightarrow>
        IsWithinSchedule cfg hour weekday g k = (False, k))
   \<and> (BusinessHoursOnly cfg \<and> StartHour cfg \<le> hour \<and> hour < EndHour cfg
        \<and> weekday \<noteq> Saturday \<and> weekday \<noteq> Sunday \<longrightarrow>
        IsWithinSchedule cfg hour weekday g k = (True, k))
   \<and> (BusinessHoursOnly cfg \<and> StartHour cfg \<le> hour \<and> hour < EndHour cfg
        \<and> (weekday = Saturday \<or> weekday = Sunday) \<longrightarrow>
        IsWithinSchedule cfg hour weekday g k = (float64At g k < 1 / 5, k + 1)
        \<and> fst (IsWithinSchedule cfg hour weekday g (snd (IsWithinSchedule cfg hour weekday g k)))
            = (float64At g (k + 1) < 1 / 5))"
  by (auto simp: IsWithinSchedule_def)

theorem IsWithinSchedule_cases_witness:
  "\<not> BusinessHoursOnly (defaultStealth\<lparr>BusinessHoursOnly := False\<rparr>)
   \<and> IsWithinSchedule (defaultStealth\<lparr>BusinessHoursOnly := False\<rparr>) 3 Sunday
        \<lparr>float64At = \<lambda>k. 9 / 10, intAt = \<lambda>k. 0\<rparr> 0 = (True, 0)
   \<and> BusinessHoursOnly defaultStealth \<and> EndHour defaultStealth \<le> 20
   \<and> IsWithinSchedule defaultStealth 20 Monday \<lparr>float64At = \<lambda>k. 1 / 10, intAt = \<lambda>k. 0\<rparr> 0
        = (False, 0)
   \<and> StartHour defaultStealth \<le> 10 \<and> 10 < EndHour defaultStealth
   \<and> IsWithinSchedule defaultStealth 10 Tuesday \<lparr>float64At = \<lambda>k. 9 / 10, intAt = \<lambda>k. 0\<rparr> 0
        = (True, 0)
   \<and> IsWithinSchedule defaultStealth 10 Saturday
        \<lparr>float64At = \<lambda>k. if k = 0 then 1 / 10 else 9 / 10, intAt = \<lambda>k. 0\<rparr> 0 = (True, 1)
   \<and> fst (IsWithinSchedule defaultStealth 10 Saturday
        \<lparr>float64At = \<lambda>k. if k = 0 then 1 / 10 else 9 / 10, intAt = \<lambda>k. 0\<rparr> 1) = False"
proof -
  let ?g = "\<lparr>float64At = \<lambda>k. if k = 0 then 1 / 10 else 9 / 10, intAt = \<lambda>k. 0\<rparr>"
  have cfg: "BusinessHoursOnly defaultStealth" "StartHour defaultStealth = 9"
    "EndHour defaultStealth = 18"
    "\<not> BusinessHoursOnly (defaultStealth\<lparr>BusinessHoursOnly := False\<rparr>)"
    by (simp_all add: defaultStealth_def)
  have off: "IsWithinSchedule (defaultStealth\<lparr>BusinessHoursOnly := False\<rparr>) 3 Sunday
        \<lparr>float64At = \<lambda>k. 9 / 10, intAt = \<lambda>k. 0\<rparr> 0 = (True, 0)"
    using IsWithinSchedule_cases [of "defaultStealth\<lparr>BusinessHoursOnly := False\<rparr>" 3 Sunday
      "\<lparr>float64At = \<lambda>k. 9 / 10, intAt = \<lambda>k. 0\<rparr>" 0] cfg by simp
  have late: "IsWithinSchedule defaultStealth 20 Monday
        \<lparr>float64At = \<lambda>k. 1 / 10, intAt = \<lambda>k. 0\<rparr> 0 = (False, 0)"
    using IsWithinSchedule_cases [of defaultStealth 20 Monday
      "\<lparr>float64At = \<lambda>k. 1 / 10, intAt = \<lambda>k. 0\<rparr>" 0] cfg by simp
  have tue: "IsWithinSchedule defaultStealth 10 Tuesday
        \<lparr>float64At = \<lambda>k. 9 / 10, intAt = \<lambda>k. 0\<rparr> 0 = (True, 0)"
    using IsWithinSchedule_cases [of defaultStealth 10 Tuesday
      "\<lparr>float64At = \<lambda>k. 9 / 10, intAt = \<lambda>k. 0\<rparr>" 0] cfg by simp
  have hyp: "BusinessHoursOnly defaultStealth \<and> StartHour defaultStealth \<le> 10
      \<and> 10 < EndHour defaultStealth \<and> (Saturday = Saturday \<or> Saturday = Sunday)"
    using cfg by simp
  have step: "IsWithinSchedule defaultStealth 10 Saturday ?g 0 = (float64At ?g 0 < 1 / 5, 0 + 1)
      \<and> fst (IsWithinSchedule defaultStealth 10 Saturday ?g
             (snd (IsWithinSchedule defaultStealth 10 Saturday ?g 0)))
          = (float64At ?g (0 + 1) < 1 / 5)"
    using IsWithinSchedule_cases [of defaultStealth 10 Saturday ?g 0] hyp by blast
  have sat1: "IsWithinSchedule defaultStealth 10 Saturday ?g 0 = (True, 1)"
    using conjunct1 [OF step] by simp
  have sat2: "fst (IsWithinSchedule defaultStealth 10 Saturday ?g 1) = False"
    using conjunct2 [OF step] unfolding sat1 by simp
  show ?thesis
    using cfg off late tue sat1 sat2 by simp
qed

subsection \<open>Scroll steps\<close>

lemma scrollLoop_length:
  "length (fst (scrollLoop startY distance numSteps g i k steps)) = length steps"
proof (induction startY distance numSteps g i k steps rule: scrollLoop.induct)
  case (1 startY distance numSteps g i k steps)
  show ?case
  proof (cases "i < numSteps")
    case True
    then show ?thesis
      using 1 [OF True refl refl refl refl refl refl]
      by (subst scrollLoop.simps) (simp add: Let_def)
  next
    case False
    then show ?thesis by (subst scrollLoop.simps) simp
  qed
qed

lemma goTrunc_of_int [simp]: "goTrunc (real_of_int n) = n"
  by (simp add: goTrunc_def)

lemma goTrunc_div: "0 \<le> a \<Longrightarrow> goTrunc (real_of_int a / 50) = a div 50"
  by (simp add: goTrunc_def floor_divide_of_int_eq [of a 50, simplified])

lemma numScrollSteps_eq: "numScrollSteps startY endY = stepCount_spec startY endY"
proof -
  have a: "\<bar>real_of_int (endY - startY)\<bar> = real_of_int \<bar>endY - startY\<bar>" by simp
  have m: "max 5 (real_of_int \<bar>endY - startY\<bar> / 50) \<ge> 0" by simp
  have f: "\<lfloor>max 5 (real_of_int \<bar>endY - startY\<bar> / 50)\<rfloor> = max 5 (\<bar>endY - startY\<bar> div 50)"
    by (simp add: max_def floor_divide_of_int_eq [of "\<bar>endY - startY\<bar>" 50, simplified] le_floor_iff floor_le_iff) linarith+
  show ?thesis
    unfolding numScrollSteps_def stepCount_spec_def Let_def a goTrunc_of_int
    using m f by (simp add: goTrunc_def clamp_def)
qed

lemma stepCount_spec_range: "5 \<le> stepCount_spec a b \<and> stepCount_spec a b \<le> 30"
  by (simp add: stepCount_spec_def clamp_def max_def)

lemma calculateScrollSteps_length:
  "int (length (fst (calculateScrollSteps startY endY g k))) = stepCount_spec startY endY"
  using stepCount_spec_range [of startY endY]
  by (simp add: calculateScrollSteps_def Let_def scrollLoop_length numScrollSteps_eq)

text \<open>
  Claim C7. When the target is less than 10 px from the current position \<open>ScrollTo\<close>
  generates no step (so for current 100 and target 95). Otherwise the number of steps it
  generates is \<open>clamp (max 5 (|targetY - currentY| / 50)) 5 30\<close>, the quotient
  truncated to an integer, and so lies between 5 and 30.
\<close>

theorem scroll_step_count:
  "(\<bar>targetY - currentY\<bar> < 10 \<longrightarrow> ScrollTo (Inr currentY) targetY g k = Inr [])
   \<and> (\<not> \<bar>targetY - currentY\<bar> < 10 \<longrightarrow>
        (\<exists>steps. ScrollTo (Inr currentY) targetY g k = Inr steps
           \<and> int (length steps) = stepCount_spec currentY targetY
           \<and> 5 \<le> length steps \<and> length steps \<le> 30))
   \<and> ScrollTo (Inr 100) 95 g k = Inr []"
proof -
  have r: "\<And>a b. (\<bar>real_of_int a - real_of_int b\<bar> < 10) = (\<bar>a - b\<bar> < 10)"
    by linarith
  have "5 \<le> length (fst (calculateScrollSteps currentY targetY g k))
        \<and> length (fst (calculateScrollSteps currentY targetY g k)) \<le> 30"
    using stepCount_spec_range [of currentY targetY]
      calculateScrollSteps_length [of currentY targetY g k] by linarith
  then show ?thesis
    by (simp add: ScrollTo_def Let_def r calculateScrollSteps_length)
qed

theorem scroll_step_count_witness:
  "\<bar>95 - (100::int)\<bar> < 10 \<and> ScrollTo (Inr 100) 95 \<lparr>float64At = \<lambda>k. 1 / 2, intAt = \<lambda>k. 7\<rparr> 0 = Inr []
   \<and> \<not> \<bar>1000 - (0::int)\<bar> < 10
   \<and> (\<exists>steps. ScrollTo (Inr 0) 1000 \<lparr>float64At = \<lambda>k. 1 / 2, intAt = \<lambda>k. 7\<rparr> 0 = Inr steps
         \<and> length steps = 20)"
  using scroll_step_count [of 95 100 "\<lparr>float64At = \<lambda>k. 1 / 2, intAt = \<lambda>k. 7\<rparr>" 0]
    scroll_step_count [of 1000 0 "\<lparr>float64At = \<lambda>k. 1 / 2, intAt = \<lambda>k. 7\<rparr>" 0]
  by (auto simp: stepCount_spec_def clamp_def)

subsection \<open>Typos\<close>







subsection \<open>Keystroke delays\<close>



lemma wfRand_bounds: "wfRand g \<Longrightarrow> 0 \<le> float64At g k \<and> float64At g k < 1"
  by (simp add: wfRand_def)




subsection \<open>The path loop\<close>

lemma bezierLoop_length:
  "length (fst (bezierLoop s c1 c2 e n g i k points)) = length points"
proof (induction "n - i" arbitrary: i k points)
  case 0
  then show ?case by (subst bezierLoop.simps) simp
next
  case (Suc d)
  then have "d = n - (i + 1)" "i < n" by simp_all
  then show ?case
    using Suc.hyps(1) [of "i + 1"]
    by (subst bezierLoop.simps) (simp add: Let_def)
qed

lemma bezierLoop_nth:
  assumes "length points = n" and "j < n"
    and "k = jitterAt k0 (min i (n - 1))"
  shows "fst (bezierLoop s c1 c2 e n g i k points) ! j =
           (if j < i then points ! j else loopPoint s c1 c2 e n g k0 j)"
  using assms
proof (induction "n - i" arbitrary: i k points)
  case 0
  then show ?case by (subst bezierLoop.simps) simp
next
  case (Suc d)
  then have d: "d = n - (i + 1)" and i: "i < n" by simp_all
  show ?case
  proof (cases "0 < i \<and> int i < int n - 1")
    case True
    let ?p = "\<lparr>X = cubicBezier (real i / real_of_int (int n - 1)) (X s) (X c1) (X c2) (X e)
                    + (float64At g k - 5 / 10) * 2,
               Y = cubicBezier (real i / real_of_int (int n - 1)) (Y s) (Y c1) (Y c2) (Y e)
                    + (float64At g (k + 1) - 5 / 10) * 2\<rparr>"
    have inner: "0 < i" "i + 1 < n" using True by auto
    then have mins: "min i (n - 1) = i" "min (i + 1) (n - 1) = i + 1" by auto
    have ki: "k = jitterAt k0 i"
      using Suc.prems(3) unfolding mins .
    have k': "k + 2 = jitterAt k0 (min (i + 1) (n - 1))"
      unfolding mins ki jitterAt_def using inner by simp
    have step: "bezierLoop s c1 c2 e n g i k points =
                bezierLoop s c1 c2 e n g (i + 1) (k + 2) (points[i := ?p])"
      using True i by (subst bezierLoop.simps) (simp add: Let_def)
    have p: "?p = loopPoint s c1 c2 e n g k0 i"
      using True ki by (simp add: loopPoint_def curvePoint_def Let_def)
    have "fst (bezierLoop s c1 c2 e n g (i + 1) (k + 2) (points[i := ?p])) ! j =
            (if j < i + 1 then points[i := ?p] ! j else loopPoint s c1 c2 e n g k0 j)"
      using Suc.hyps(1) [OF d _ Suc.prems(2) k'] Suc.prems(1) by simp
    then show ?thesis
      unfolding step using p i Suc.prems(1)
      by (cases "j = i") (auto simp: nth_list_update)
  next
    case False
    let ?p = "\<lparr>X = cubicBezier (real i / real_of_int (int n - 1)) (X s) (X c1) (X c2) (X e),
               Y = cubicBezier (real i / real_of_int (int n - 1)) (Y s) (Y c1) (Y c2) (Y e)\<rparr>"
    have edge: "i = 0 \<or> i + 1 = n" using False i by auto
    have k': "k = jitterAt k0 (min (i + 1) (n - 1))"
    proof (cases "i = 0")
      case True
      then show ?thesis using Suc.prems(3) by (simp add: jitterAt_def min_def)
    next
      case False
      then have "i + 1 = n" using edge by simp
      then have "min i (n - 1) = n - 1" "min (i + 1) (n - 1) = n - 1" by auto
      then show ?thesis using Suc.prems(3) by simp
    qed
    have step: "bezierLoop s c1 c2 e n g i k points =
                bezierLoop s c1 c2 e n g (i + 1) k (points[i := ?p])"
      using False i by (subst bezierLoop.simps) (auto simp: Let_def)
    have p: "?p = loopPoint s c1 c2 e n g k0 i"
      using False by (auto simp: loopPoint_def curvePoint_def Let_def)
    have "fst (bezierLoop s c1 c2 e n g (i + 1) k (points[i := ?p])) ! j =
            (if j < i + 1 then points[i := ?p] ! j else loopPoint s c1 c2 e n g k0 j)"
      using Suc.hyps(1) [OF d _ Suc.prems(2) k'] Suc.prems(1) by simp
    then show ?thesis
      unfolding step using p i Suc.prems(1)
      by (cases "j = i") (auto simp: nth_list_update)
  qed
qed

lemma bezierLoop_snd:
  assumes "i \<le> n" and "k = jitterAt k0 (min i (n - 1))"
  shows "snd (bezierLoop s c1 c2 e n g i k points) = jitterAt k0 (n - 1)"
  using assms
proof (induction "n - i" arbitrary: i k points)
  case 0
  then have "i = n" by simp
  then show ?case using "0.prems"(2) by (subst bezierLoop.simps) simp
next
  case (Suc d)
  then have d: "d = n - (i + 1)" and i: "i < n" by simp_all
  then have le: "i + 1 \<le> n" by simp
  show ?case
  proof (cases "0 < i \<and> int i < int n - 1")
    case True
    have inner: "0 < i" "i + 1 < n" using True by auto
    then have mins: "min i (n - 1) = i" "min (i + 1) (n - 1) = i + 1" by auto
    have ki: "k = jitterAt k0 i"
      using Suc.prems(2) unfolding mins .
    have k': "k + 2 = jitterAt k0 (min (i + 1) (n - 1))"
      unfolding mins ki jitterAt_def using inner by simp
    show ?thesis
      using True i Suc.hyps(1) [OF d le k']
      by (subst bezierLoop.simps) (simp add: Let_def)
  next
    case False
    have edge: "i = 0 \<or> i + 1 = n" using False i by auto
    have k': "k = jitterAt k0 (min (i + 1) (n - 1))"
    proof (cases "i = 0")
      case True
      then show ?thesis using Suc.prems(2) by (simp add: jitterAt_def min_def)
    next
      case False
      then have "i + 1 = n" using edge by simp
      then have "min i (n - 1) = n - 1" "min (i + 1) (n - 1) = n - 1" by auto
      then show ?thesis using Suc.prems(2) by simp
    qed
    show ?thesis
      using False i Suc.hyps(1) [OF d le k']
      by (subst bezierLoop.simps) (auto simp: Let_def)
  qed
qed

lemma cubicBezier_0 [simp]: "cubicBezier 0 p0 p1 p2 p3 = p0"
  by (simp add: cubicBezier_def)

lemma cubicBezier_1 [simp]: "cubicBezier 1 p0 p1 p2 p3 = p3"
  by (simp add: cubicBezier_def)

lemma cubicBezier_const: "cubicBezier t p p p p = p"
  by (simp add: cubicBezier_def Let_def algebra_simps)

lemma numPoints_ge: "20 \<le> nat (goTrunc (max 20 (d / 10)))"
proof -
  have "(20::real) \<le> max 20 (d / 10)" by simp
  then have f: "20 \<le> \<lfloor>max 20 (d / 10)\<rfloor>" by (simp add: le_floor_iff)
  have "goTrunc (max 20 (d / 10)) = \<lfloor>max 20 (d / 10)\<rfloor>"
    by (simp add: goTrunc_def)
  then show ?thesis using f by arith
qed

lemma curvePoint_first: "curvePoint s c1 c2 e n 0 = s"
  by (simp add: curvePoint_def)

lemma curvePoint_last: "2 \<le> n \<Longrightarrow> curvePoint s c1 c2 e n (n - 1) = e"
  by (simp add: curvePoint_def Let_def of_nat_diff)

lemma jitterAt0 [simp]: "jitterAt k 0 = k"
  by (simp add: jitterAt_def)

lemma generateBezierPath_nth:
  assumes "n = nat (goTrunc (max 20 (pathDistance startX startY endX endY / 10)))"
    and "cs = fst (generateControlPoints startX startY endX endY
                    (pathDistance startX startY endX endY) g k)"
    and "i < n"
  shows "fst (generateBezierPath startX startY endX endY g k) ! i =
         loopPoint \<lparr>X = startX, Y = startY\<rparr> (fst cs) (snd cs) \<lparr>X = endX, Y = endY\<rparr> n g (k + 6) i"
proof -
  have k6: "k + 6 = jitterAt (k + 6) (min 0 (n - 1))" by simp
  have len: "length (replicate n \<lparr>X = 0, Y = 0\<rparr>) = n" by simp
  have cp: "generateControlPoints startX startY endX endY
              (pathDistance startX startY endX endY) g k = ((fst cs, snd cs), k + 6)"
    unfolding assms(2) by (simp add: generateControlPoints_def Let_def)
  show ?thesis
    unfolding generateBezierPath_def Let_def cp prod.case assms(1) [symmetric]
    using bezierLoop_nth [OF len assms(3) k6] by simp
qed

lemma generateBezierPath_length:
  "length (fst (generateBezierPath startX startY endX endY g k)) =
     nat (goTrunc (max 20 (pathDistance startX startY endX endY / 10)))"
  by (simp add: generateBezierPath_def Let_def split_def bezierLoop_length)

lemma generateBezierPath_snd:
  "snd (generateBezierPath startX startY endX endY g k) =
     k + 6 + 2 * (nat (goTrunc (max 20 (pathDistance startX startY endX endY / 10))) - 2)"
proof -
  define n where "n = nat (goTrunc (max 20 (pathDistance startX startY endX endY / 10)))"
  define cs where "cs = fst (generateControlPoints startX startY endX endY
                    (pathDistance startX startY endX endY) g k)"
  have k6: "k + 6 = jitterAt (k + 6) (min 0 (n - 1))" by simp
  have cp: "generateControlPoints startX startY endX endY
              (pathDistance startX startY endX endY) g k = ((fst cs, snd cs), k + 6)"
    unfolding cs_def by (simp add: generateControlPoints_def Let_def)
  have "snd (generateBezierPath startX startY endX endY g k) = jitterAt (k + 6) (n - 1)"
    unfolding generateBezierPath_def Let_def cp prod.case n_def [symmetric]
    by (rule bezierLoop_snd [OF _ k6]) simp
  then show ?thesis by (simp add: jitterAt_def n_def)
qed

subsection \<open>Paths and their steps\<close>

lemma moveLoop_points: "map fst (fst (moveLoop cfg g n i k points)) = points"
  by (induction points arbitrary: i k) (simp_all add: Let_def split_def)

lemma moveLoop_length: "length (fst (moveLoop cfg g n i k points)) = length points"
  by (induction points arbitrary: i k) (simp_all add: Let_def split_def)

lemma moveLoop_delay:
  "j < length points \<Longrightarrow>
   snd (fst (moveLoop cfg g n i k points) ! j) = stepDelay cfg g n (i + j) (k + j)"
proof (induction points arbitrary: i k j)
  case Nil
  then show ?case by simp
next
  case (Cons p ps)
  show ?case
  proof (cases j)
    case 0
    then show ?thesis by (simp add: Let_def split_def stepDelay_def)
  next
    case (Suc j')
    then have "j' < length ps" using Cons.prems by simp
    from Cons.IH [OF this, of "i + 1" "k + 1"] show ?thesis
      using Suc by (simp add: Let_def split_def)
  qed
qed

lemma MoveTo_steps:
  "fst (MoveTo m targetX targetY g k) =
     fst (moveLoop (config m) g
            (length (fst (generateBezierPath (lastX m) (lastY m) targetX targetY g k))) 0
            (snd (generateBezierPath (lastX m) (lastY m) targetX targetY g k))
            (fst (generateBezierPath (lastX m) (lastY m) targetX targetY g k)))"
  by (simp add: MoveTo_def Let_def split_def)

lemma pathDistance_same [simp]: "pathDistance x y x y = 0"
  by (simp add: pathDistance_def)

lemma goTrunc_20 [simp]: "goTrunc 20 = 20"
  by (simp add: goTrunc_def)

lemma controlPoints_same:
  "fst (generateControlPoints x y x y 0 g k) = (\<lparr>X = x, Y = y\<rparr>, \<lparr>X = x, Y = y\<rparr>)"
  by (simp add: generateControlPoints_def Let_def)

lemma loopPoint_same:
  "loopPoint \<lparr>X = x, Y = y\<rparr> \<lparr>X = x, Y = y\<rparr> \<lparr>X = x, Y = y\<rparr> \<lparr>X = x, Y = y\<rparr> n g k i =
     (if 0 < i \<and> int i < int n - 1
      then \<lparr>X = x + (float64At g (jitterAt k i) - 5 / 10) * 2,
            Y = y + (float64At g (jitterAt k i + 1) - 5 / 10) * 2\<rparr>
      else \<lparr>X = x, Y = y\<rparr>)"
  by (simp add: loopPoint_def curvePoint_def Let_def cubicBezier_const)

lemma zero_path_length: "length (fst (generateBezierPath x y x y g k)) = 20"
  by (simp add: generateBezierPath_length)

lemma zero_path_nth:
  assumes "i < 20"
  shows "fst (generateBezierPath x y x y g k) ! i =
     (if 0 < i \<and> i < 19
      then \<lparr>X = x + (float64At g (k + 6 + 2 * (i - 1)) - 5 / 10) * 2,
            Y = y + (float64At g (k + 6 + 2 * (i - 1) + 1) - 5 / 10) * 2\<rparr>
      else \<lparr>X = x, Y = y\<rparr>)"
proof -
  have n: "20 = nat (goTrunc (max 20 (pathDistance x y x y / 10)))" by simp
  have "fst (generateBezierPath x y x y g k) ! i =
        loopPoint \<lparr>X = x, Y = y\<rparr> \<lparr>X = x, Y = y\<rparr> \<lparr>X = x, Y = y\<rparr> \<lparr>X = x, Y = y\<rparr> 20 g (k + 6) i"
    using generateBezierPath_nth [OF n refl assms, of g k]
    by (simp add: controlPoints_same)
  then show ?thesis by (simp add: loopPoint_same jitterAt_def)
qed

lemma zero_path_near:
  assumes "wfRand g" and "i < 20"
  shows "\<bar>X (fst (generateBezierPath x y x y g k) ! i) - x\<bar> \<le> 1
       \<and> \<bar>Y (fst (generateBezierPath x y x y g k) ! i) - y\<bar> \<le> 1"
proof -
  have a: "0 \<le> float64At g (k + 6 + 2 * (i - 1)) \<and> float64At g (k + 6 + 2 * (i - 1)) < 1"
    using assms(1) by (rule wfRand_bounds)
  have b: "0 \<le> float64At g (k + 6 + 2 * (i - 1) + 1) \<and> float64At g (k + 6 + 2 * (i - 1) + 1) < 1"
    using assms(1) by (rule wfRand_bounds)
  show ?thesis
    unfolding zero_path_nth [OF assms(2)] using a b by (simp add: abs_le_iff)
qed

lemma zero_path_snd: "snd (generateBezierPath x y x y g k) = k + 42"
  by (simp add: generateBezierPath_snd)

lemma zero_move_delay:
  assumes "lastX m = x" and "lastY m = y" and "i < 20"
  shows "snd (fst (MoveTo m x y g k) ! i) = stepDelay (config m) g 20 i (k + 42 + i)"
  unfolding MoveTo_steps assms(1) assms(2) zero_path_length zero_path_snd
  using moveLoop_delay [of i "fst (generateBezierPath x y x y g k)" _ _ 20 0 "k + 42"] assms(3)
  by (simp add: zero_path_length)

lemma path_nonempty: "fst (generateBezierPath startX startY endX endY g k) \<noteq> []"
proof -
  have "20 \<le> length (fst (generateBezierPath startX startY endX endY g k))"
    unfolding generateBezierPath_length by (rule numPoints_ge)
  then show ?thesis by auto
qed

lemma path_first:
  "fst (generateBezierPath startX startY endX endY g k) ! 0 = \<lparr>X = startX, Y = startY\<rparr>"
proof -
  have "0 < nat (goTrunc (max 20 (pathDistance startX startY endX endY / 10)))"
    using numPoints_ge [of "pathDistance startX startY endX endY"] by simp
  from generateBezierPath_nth [OF refl refl this]
  show ?thesis by (simp add: loopPoint_def curvePoint_first)
qed

lemma path_last:
  "fst (generateBezierPath startX startY endX endY g k)
     ! (nat (goTrunc (max 20 (pathDistance startX startY endX endY / 10))) - 1)
   = \<lparr>X = endX, Y = endY\<rparr>"
proof -
  define n where "n = nat (goTrunc (max 20 (pathDistance startX startY endX endY / 10)))"
  have n: "20 \<le> n" unfolding n_def by (rule numPoints_ge)
  then have lt: "n - 1 < n" and two: "2 \<le> n" by simp_all
  have e: "\<not> (0 < n - 1 \<and> int (n - 1) < int n - 1)" using n by simp
  have lp: "loopPoint s c1 c2 d n g k' (n - 1) = curvePoint s c1 c2 d n (n - 1)"
    for s c1 c2 d k'
    unfolding loopPoint_def Let_def using e by (simp only: if_False)
  show ?thesis
    unfolding n_def [symmetric] generateBezierPath_nth [OF n_def refl lt] lp
      curvePoint_last [OF two] ..
qed

text \<open>
  Claim C3. For any two points and any outcome of the random source (also when the two
  points coincide), the generated path has \<open>max 20 (distance / 10)\<close> points,
  truncated, so at least 20; its first point is the start and its last point the end,
  exactly; the points at the two ends are the curve points with nothing added, and each
  point strictly between them is the curve point plus the jitter of its two draws.
\<close>

theorem bezier_path_endpoints:
  "let path = fst (generateBezierPath startX startY endX endY g k);
       n = nat (goTrunc (max 20 (pathDistance startX startY endX endY / 10)));
       cs = fst (generateControlPoints startX startY endX endY
                   (pathDistance startX startY endX endY) g k);
       start = \<lparr>X = startX, Y = startY\<rparr>;
       dest = \<lparr>X = endX, Y = endY\<rparr>
   in path \<noteq> [] \<and> length path = n \<and> 20 \<le> n
      \<and> hd path = start \<and> last path = dest
      \<and> (\<forall>i. i < n \<longrightarrow>
            path ! i =
              (if 0 < i \<and> i < n - 1
               then \<lparr>X = X (curvePoint start (fst cs) (snd cs) dest n i)
                           + (float64At g (k + 6 + 2 * (i - 1)) - 5 / 10) * 2,
                     Y = Y (curvePoint start (fst cs) (snd cs) dest n i)
                           + (float64At g (k + 6 + 2 * (i - 1) + 1) - 5 / 10) * 2\<rparr>
               else curvePoint start (fst cs) (snd cs) dest n i))"
proof -
  define path where "path = fst (generateBezierPath startX startY endX endY g k)"
  define n where "n = nat (goTrunc (max 20 (pathDistance startX startY endX endY / 10)))"
  define cs where "cs = fst (generateControlPoints startX startY endX endY
                   (pathDistance startX startY endX endY) g k)"
  have ne: "path \<noteq> []" unfolding path_def by (rule path_nonempty)
  have len: "length path = n" unfolding path_def n_def by (rule generateBezierPath_length)
  have n20: "20 \<le> n" unfolding n_def by (rule numPoints_ge)
  have first: "path ! 0 = \<lparr>X = startX, Y = startY\<rparr>"
    unfolding path_def by (rule path_first)
  have lst: "path ! (n - 1) = \<lparr>X = endX, Y = endY\<rparr>"
    unfolding path_def n_def by (rule path_last)
  have h: "hd path = \<lparr>X = startX, Y = startY\<rparr>"
    using ne first by (simp add: hd_conv_nth)
  have l: "last path = \<lparr>X = endX, Y = endY\<rparr>"
    using ne lst len by (simp add: last_conv_nth)
  have nth: "path ! i =
              (if 0 < i \<and> i < n - 1
               then \<lparr>X = X (curvePoint \<lparr>X = startX, Y = startY\<rparr> (fst cs) (snd cs)
                              \<lparr>X = endX, Y = endY\<rparr> n i)
                           + (float64At g (k + 6 + 2 * (i - 1)) - 5 / 10) * 2,
                     Y = Y (curvePoint \<lparr>X = startX, Y = startY\<rparr> (fst cs) (snd cs)
                              \<lparr>X = endX, Y = endY\<rparr> n i)
                           + (float64At g (k + 6 + 2 * (i - 1) + 1) - 5 / 10) * 2\<rparr>
               else curvePoint \<lparr>X = startX, Y = startY\<rparr> (fst cs) (snd cs)
                      \<lparr>X = endX, Y = endY\<rparr> n i)"
    if "i < n" for i
  proof -
    have c: "(0 < i \<and> int i < int n - 1) = (0 < i \<and> i < n - 1)" using that by auto
    have "path ! i = loopPoint \<lparr>X = startX, Y = startY\<rparr> (fst cs) (snd cs)
                       \<lparr>X = endX, Y = endY\<rparr> n g (k + 6) i"
      unfolding path_def by (rule generateBezierPath_nth [OF n_def cs_def that])
    then show ?thesis
      unfolding loopPoint_def Let_def c jitterAt_def .
  qed
  show ?thesis
    unfolding Let_def path_def [symmetric] n_def [symmetric] cs_def [symmetric]
    using ne len n20 h l nth by blast
qed

lemma sqrt_25: "sqrt 25 = 5"
proof -
  have "sqrt (5 ^ 2) = \<bar>5::real\<bar>" by (rule real_sqrt_abs)
  then show ?thesis by simp
qed

lemma pathDistance_3_4: "pathDistance 0 0 3 4 = 5"
  by (simp add: pathDistance_def sqrt_25)

theorem bezier_path_endpoints_witness:
  "(3::nat) < 20
   \<and> length (fst (generateBezierPath 0 0 3 4 \<lparr>float64At = \<lambda>k. 1 / 4, intAt = \<lambda>k. 0\<rparr> 0)) = 20
   \<and> hd (fst (generateBezierPath 0 0 3 4 \<lparr>float64At = \<lambda>k. 1 / 4, intAt = \<lambda>k. 0\<rparr> 0))
       = \<lparr>X = 0, Y = 0\<rparr>
   \<and> last (fst (generateBezierPath 0 0 3 4 \<lparr>float64At = \<lambda>k. 1 / 4, intAt = \<lambda>k. 0\<rparr> 0))
       = \<lparr>X = 3, Y = 4\<rparr>
   \<and> X (fst (generateBezierPath 0 0 3 4 \<lparr>float64At = \<lambda>k. 1 / 4, intAt = \<lambda>k. 0\<rparr> 0) ! 3)
       = X (curvePoint \<lparr>X = 0, Y = 0\<rparr>
             (fst (fst (generateControlPoints 0 0 3 4 5 \<lparr>float64At = \<lambda>k. 1 / 4, intAt = \<lambda>k. 0\<rparr> 0)))
             (snd (fst (generateControlPoints 0 0 3 4 5 \<lparr>float64At = \<lambda>k. 1 / 4, intAt = \<lambda>k. 0\<rparr> 0)))
             \<lparr>X = 3, Y = 4\<rparr> 20 3) - 1 / 2"
proof -
  let ?g = "\<lparr>float64At = \<lambda>k. 1 / 4, intAt = \<lambda>k. 0\<rparr>"
  have n: "nat (goTrunc (max 20 (pathDistance 0 0 3 4 / 10))) = 20"
    by (simp add: pathDistance_3_4)
  note t = bezier_path_endpoints [of 0 0 3 4 ?g 0, unfolded Let_def n pathDistance_3_4]
  have i: "(3::nat) < 20" by simp
  have p3: "fst (generateBezierPath 0 0 3 4 ?g 0) ! 3 =
      \<lparr>X = X (curvePoint \<lparr>X = 0, Y = 0\<rparr>
             (fst (fst (generateControlPoints 0 0 3 4 5 ?g 0)))
             (snd (fst (generateControlPoints 0 0 3 4 5 ?g 0))) \<lparr>X = 3, Y = 4\<rparr> 20 3)
            + (float64At ?g (0 + 6 + 2 * (3 - 1)) - 5 / 10) * 2,
        Y = Y (curvePoint \<lparr>X = 0, Y = 0\<rparr>
             (fst (fst (generateControlPoints 0 0 3 4 5 ?g 0)))
             (snd (fst (generateControlPoints 0 0 3 4 5 ?g 0))) \<lparr>X = 3, Y = 4\<rparr> 20 3)
            + (float64At ?g (0 + 6 + 2 * (3 - 1) + 1) - 5 / 10) * 2\<rparr>"
    using t i by simp
  show ?thesis
    using t unfolding p3 by simp
qed

lemma zero_path_hd: "hd (fst (generateBezierPath x y x y g k)) = \<lparr>X = x, Y = y\<rparr>"
  using path_nonempty [of x y x y g k] path_first [of x y x y g k]
  by (simp add: hd_conv_nth)

lemma zero_path_last: "last (fst (generateBezierPath x y x y g k)) = \<lparr>X = x, Y = y\<rparr>"
  using path_nonempty [of x y x y g k] zero_path_nth [of 19 x y g k]
  by (simp add: last_conv_nth zero_path_length)

lemma zero_move_points:
  "lastX m = x \<Longrightarrow> lastY m = y \<Longrightarrow>
   map fst (fst (MoveTo m x y g k)) = fst (generateBezierPath x y x y g k)"
  by (simp add: MoveTo_steps moveLoop_points)

lemma stepDelay_default_first:
  "intAt g k mod 10 = 0 \<Longrightarrow> stepDelay defaultStealth g 20 0 k = Some 10"
  by (simp add: stepDelay_def calculateSpeedFactor_def defaultStealth_def Intn_def goTrunc_def)

text \<open>
  Claim C4, as the code has it. When start and end coincide the generator takes no
  special case: the path has the usual 20 points, the first and the last are the target,
  each of the 18 points between them is the target plus the jitter of its two draws, so
  within 1 px of the target on each axis, and \<open>MoveTo\<close> moves through these 20
  points and gives each its usual delay, the base delay divided by the speed factor.
\<close>

theorem zero_distance_path:
  "let path = fst (generateBezierPath x y x y g k);
       target = \<lparr>X = x, Y = y\<rparr>
   in length path = 20 \<and> hd path = target \<and> last path = target
      \<and> (\<forall>i. i < 20 \<longrightarrow>
            path ! i =
              (if 0 < i \<and> i < 19
               then \<lparr>X = x + (float64At g (k + 6 + 2 * (i - 1)) - 5 / 10) * 2,
                     Y = y + (float64At g (k + 6 + 2 * (i - 1) + 1) - 5 / 10) * 2\<rparr>
               else target))
      \<and> (wfRand g \<longrightarrow>
            (\<forall>i. i < 20 \<longrightarrow> \<bar>X (path ! i) - x\<bar> \<le> 1 \<and> \<bar>Y (path ! i) - y\<bar> \<le> 1))
      \<and> (lastX m = x \<and> lastY m = y \<longrightarrow>
            map fst (fst (MoveTo m x y g k)) = path
            \<and> (\<forall>i. i < 20 \<longrightarrow>
                  snd (fst (MoveTo m x y g k) ! i) = stepDelay (config m) g 20 i (k + 42 + i)))"
  unfolding Let_def
  using zero_path_length [of x y g k] zero_path_hd [of x y g k] zero_path_last [of x y g k]
    zero_path_nth [of _ x y g k] zero_path_near [of g _ x y k]
    zero_move_points [of m x y g k] zero_move_delay [of m x y _ g k]
  by blast

theorem zero_distance_path_witness:
  "wfRand \<lparr>float64At = \<lambda>k. 1 / 4, intAt = \<lambda>k. 0\<rparr> \<and> (5::nat) < 20
   \<and> lastX \<lparr>config = defaultStealth, lastX = 3, lastY = 4\<rparr> = 3
   \<and> lastY \<lparr>config = defaultStealth, lastX = 3, lastY = 4\<rparr> = 4
   \<and> length (fst (generateBezierPath 3 4 3 4 \<lparr>float64At = \<lambda>k. 1 / 4, intAt = \<lambda>k. 0\<rparr> 0)) = 20
   \<and> fst (generateBezierPath 3 4 3 4 \<lparr>float64At = \<lambda>k. 1 / 4, intAt = \<lambda>k. 0\<rparr> 0) ! 5
       = \<lparr>X = 5 / 2, Y = 7 / 2\<rparr>
   \<and> \<bar>X (fst (generateBezierPath 3 4 3 4 \<lparr>float64At = \<lambda>k. 1 / 4, intAt = \<lambda>k. 0\<rparr> 0) ! 5) - 3\<bar> \<le> 1
   \<and> snd (fst (MoveTo \<lparr>config = defaultStealth, lastX = 3, lastY = 4\<rparr> 3 4
                  \<lparr>float64At = \<lambda>k. 1 / 4, intAt = \<lambda>k. 0\<rparr> 0) ! 5)
       = stepDelay defaultStealth \<lparr>float64At = \<lambda>k. 1 / 4, intAt = \<lambda>k. 0\<rparr> 20 5 47"
proof -
  let ?g = "\<lparr>float64At = \<lambda>k. 1 / 4, intAt = \<lambda>k. 0\<rparr>"
  let ?m = "\<lparr>config = defaultStealth, lastX = 3, lastY = 4\<rparr>"
  have wf: "wfRand ?g" by (simp add: wfRand_def)
  have i: "(5::nat) < 20" by simp
  have m: "lastX ?m = 3 \<and> lastY ?m = 4" by simp
  note t = zero_distance_path [of 3 4 ?g 0 ?m, unfolded Let_def]
  have len: "length (fst (generateBezierPath 3 4 3 4 ?g 0)) = 20"
    using t by blast
  have p5: "fst (generateBezierPath 3 4 3 4 ?g 0) ! 5 = \<lparr>X = 5 / 2, Y = 7 / 2\<rparr>"
    using t i by simp
  have near: "\<bar>X (fst (generateBezierPath 3 4 3 4 ?g 0) ! 5) - 3\<bar> \<le> 1"
    using t wf i by blast
  have d: "snd (fst (MoveTo ?m 3 4 ?g 0) ! 5) = stepDelay defaultStealth ?g 20 5 47"
    using t m i by simp
  show ?thesis using wf len p5 near d by simp
qed

theorem single_step_path_counterexample:
  "length (fst (generateBezierPath 3 4 3 4 \<lparr>float64At = \<lambda>k. 1 / 4, intAt = \<lambda>k. 0\<rparr> 0)) = 20
   \<and> fst (generateBezierPath 3 4 3 4 \<lparr>float64At = \<lambda>k. 1 / 4, intAt = \<lambda>k. 0\<rparr> 0)
       \<noteq> [\<lparr>X = 3, Y = 4\<rparr>]
   \<and> snd (fst (MoveTo \<lparr>config = defaultStealth, lastX = 3, lastY = 4\<rparr> 3 4
                  \<lparr>float64At = \<lambda>k. 1 / 4, intAt = \<lambda>k. 0\<rparr> 0) ! 0) = Some 10"
proof -
  let ?g = "\<lparr>float64At = \<lambda>k. 1 / 4, intAt = \<lambda>k. 0\<rparr>"
  let ?m = "\<lparr>config = defaultStealth, lastX = 3, lastY = 4\<rparr>"
  have len: "length (fst (generateBezierPath 3 4 3 4 ?g 0)) = 20"
    by (rule zero_path_length)
  then have ne: "fst (generateBezierPath 3 4 3 4 ?g 0) \<noteq> [\<lparr>X = 3, Y = 4\<rparr>]"
    by auto
  have "snd (fst (MoveTo ?m 3 4 ?g 0) ! 0) = stepDelay (config ?m) ?g 20 0 (0 + 42 + 0)"
    by (rule zero_move_delay) simp_all
  then have d: "snd (fst (MoveTo ?m 3 4 ?g 0) ! 0) = Some 10"
    by (simp add: stepDelay_default_first)
  show ?thesis using len ne d by simp
qed

subsection \<open>Random delays\<close>

lemma redraw_returns:
  "float64At g (k + d) \<noteq> 0 \<Longrightarrow> \<exists>r. redraw g u1 k = Some r"
proof (induction d arbitrary: u1 k)
  case 0
  show ?case
  proof (cases "u1 = 0")
    case True
    then have "redraw g u1 k = redraw g (float64At g k) (k + 1)"
      by (subst redraw.simps) simp
    also have "\<dots> = Some (float64At g k, k + 1)"
      using 0 by (subst redraw.simps) simp
    finally show ?thesis by blast
  next
    case False
    then show ?thesis by (subst redraw.simps) simp
  qed
next
  case (Suc d)
  show ?case
  proof (cases "u1 = 0")
    case True
    have "float64At g (k + 1 + d) \<noteq> 0" using Suc.prems by simp
    from Suc.IH [OF this] obtain r where "redraw g (float64At g k) (k + 1) = Some r"
      by blast
    then show ?thesis using True by (subst redraw.simps) simp
  next
    case False
    then show ?thesis by (subst redraw.simps) simp
  qed
qed

lemma redraw_nonzero: "u1 \<noteq> 0 \<Longrightarrow> redraw g u1 k = Some (u1, k)"
  by (subst redraw.simps) simp

lemma normalRandom_returns:
  assumes "float64At g k \<noteq> 0 \<or> (\<exists>d. float64At g (k + 2 + d) \<noteq> 0)"
  shows "\<exists>r. normalRandom mean stdDev g k = Some r"
proof -
  have "\<exists>r. redraw g (float64At g k) (k + 2) = Some r"
    using assms redraw_nonzero [of "float64At g k" g "k + 2"] redraw_returns [of g "k + 2"]
    by blast
  then show ?thesis
    by (auto simp: normalRandom_def Let_def)
qed

lemma goTrunc_mono: "x \<le> y \<Longrightarrow> goTrunc x \<le> goTrunc y"
proof -
  assume xy: "x \<le> y"
  show ?thesis
  proof (cases "0 \<le> x")
    case True
    then have "0 \<le> y" using xy by simp
    then show ?thesis using True xy by (simp add: goTrunc_def floor_mono)
  next
    case False
    then have cx: "\<lceil>x\<rceil> \<le> 0" by (simp add: ceiling_le_iff)
    show ?thesis
    proof (cases "0 \<le> y")
      case True
      then have "0 \<le> \<lfloor>y\<rfloor>" by simp
      then have "\<lceil>x\<rceil> \<le> \<lfloor>y\<rfloor>" using cx by (rule order_trans [rotated])
      then show ?thesis using False True by (simp add: goTrunc_def)
    next
      case y: False
      then show ?thesis using False xy by (simp add: goTrunc_def ceiling_mono)
    qed
  qed
qed

lemma goTrunc_int_scaled: "goTrunc (real_of_int n * 1000000000) = n * 1000000000"
proof -
  have "real_of_int n * 1000000000 = real_of_int (n * 1000000000)" by simp
  then show ?thesis unfolding goTrunc_def by (simp only: floor_of_int ceiling_of_int if_cancel)
qed

lemma RandomDelay_bounds:
  assumes "minSeconds < maxSeconds"
    and "RandomDelay minSeconds maxSeconds g k = Some (delay, duration, k')"
  shows "real_of_int minSeconds \<le> delay \<and> delay \<le> real_of_int maxSeconds
       \<and> minSeconds * 1000000000 \<le> duration \<and> duration \<le> maxSeconds * 1000000000"
proof -
  obtain x where x: "normalRandom (real_of_int (minSeconds + maxSeconds) / 2)
                       (real_of_int (maxSeconds - minSeconds) / 4) g k = Some (x, k')"
    and d: "delay = (let a = (if x < real_of_int minSeconds then real_of_int minSeconds else x)
                     in if real_of_int maxSeconds < a then real_of_int maxSeconds else a)"
    and u: "duration = goTrunc (delay * 1000000000)"
    using assms by (auto simp: RandomDelay_def Let_def split: option.splits)
  have b: "real_of_int minSeconds \<le> delay \<and> delay \<le> real_of_int maxSeconds"
    using assms(1) d by (auto simp: Let_def)
  then have "real_of_int minSeconds * 1000000000 \<le> delay * 1000000000"
    and "delay * 1000000000 \<le> real_of_int maxSeconds * 1000000000" by simp_all
  then have "goTrunc (real_of_int minSeconds * 1000000000) \<le> duration"
    and "duration \<le> goTrunc (real_of_int maxSeconds * 1000000000)"
    unfolding u by (simp_all add: goTrunc_mono)
  then show ?thesis using b by (simp only: goTrunc_int_scaled)
qed

lemma RandomDelay_returns:
  assumes "float64At g k \<noteq> 0 \<or> (\<exists>d. float64At g (k + 2 + d) \<noteq> 0)"
  shows "\<exists>r. RandomDelay minSeconds maxSeconds g k = Some r"
proof -
  have "\<exists>r. normalRandom mean stdDev g k = Some r" for mean stdDev
    using assms by (rule normalRandom_returns)
  then show ?thesis
    unfolding RandomDelay_def Let_def split_def
    by (metis (no_types, lifting) option.simps(5))
qed

lemma normalRandom_first_draw:
  "float64At g k \<noteq> 0 \<Longrightarrow>
   normalRandom mean stdDev g k =
     Some (mean + sqrt (- 2 * ln (float64At g k)) * cos (2 * pi * float64At g (k + 1)) * stdDev,
           k + 2)"
  by (simp add: normalRandom_def redraw_nonzero)

lemma clamp_max_min:
  "(if hi < (if x < lo then lo else x) then hi else (if x < lo then lo else x))
     = max lo (min hi (x::real))"
  if "lo < hi"
  using that by (auto simp: max_def min_def)

lemma RandomDelay_first_draw:
  assumes "minSeconds < maxSeconds" and "float64At g k \<noteq> 0"
  shows "RandomDelay minSeconds maxSeconds g k =
     (let mean = real_of_int (minSeconds + maxSeconds) / 2;
          stdDev = real_of_int (maxSeconds - minSeconds) / 4;
          z = sqrt (- 2 * ln (float64At g k)) * cos (2 * pi * float64At g (k + 1));
          delay = max (real_of_int minSeconds) (min (real_of_int maxSeconds) (mean + z * stdDev))
      in Some (delay, goTrunc (delay * 1000000000), k + 2))"
proof -
  have no: "\<not> maxSeconds \<le> minSeconds" using assms(1) by simp
  have lt: "real_of_int minSeconds < real_of_int maxSeconds" using assms(1) by simp
  show ?thesis
    unfolding RandomDelay_def if_not_P [OF no] prod.case
      normalRandom_first_draw [OF assms(2)] option.case
    by (simp only: Let_def prod.case clamp_max_min [OF lt])
qed

text \<open>
  Claim C6. For \<open>minSeconds < maxSeconds\<close> and any outcome of the random source:
  \<open>RandomDelay\<close> returns as soon as the first draw, or one of the draws made again
  in its place, is not 0; whenever it returns, the delay lies between \<open>minSeconds\<close>
  and \<open>maxSeconds\<close> inclusive, and so does the duration it sleeps; and when the first
  draw is not 0 the delay is the Box-Muller value
  \<open>mean + sqrt (-2 ln u1) cos (2 pi u2) stdDev\<close> with \<open>mean = (min + max) / 2\<close> and
  \<open>stdDev = (max - min) / 4\<close>, clamped into the interval.
\<close>

theorem RandomDelay_in_bounds:
  assumes "minSeconds < maxSeconds"
  shows "(float64At g k \<noteq> 0 \<or> (\<exists>d. float64At g (k + 2 + d) \<noteq> 0) \<longrightarrow>
            (\<exists>delay duration k'. RandomDelay minSeconds maxSeconds g k = Some (delay, duration, k')))
     \<and> (\<forall>delay duration k'. RandomDelay minSeconds maxSeconds g k = Some (delay, duration, k') \<longrightarrow>
            real_of_int minSeconds \<le> delay \<and> delay \<le> real_of_int maxSeconds
            \<and> minSeconds * 1000000000 \<le> duration \<and> duration \<le> maxSeconds * 1000000000)
     \<and> (float64At g k \<noteq> 0 \<longrightarrow>
           RandomDelay minSeconds maxSeconds g k =
             (let mean = real_of_int (minSeconds + maxSeconds) / 2;
                  stdDev = real_of_int (maxSeconds - minSeconds) / 4;
                  z = sqrt (- 2 * ln (float64At g k)) * cos (2 * pi * float64At g (k + 1));
                  delay = max (real_of_int minSeconds)
                            (min (real_of_int maxSeconds) (mean + z * stdDev))
              in Some (delay, goTrunc (delay * 1000000000), k + 2)))"
proof (intro conjI impI allI)
  assume "float64At g k \<noteq> 0 \<or> (\<exists>d. float64At g (k + 2 + d) \<noteq> 0)"
  then obtain r where "RandomDelay minSeconds maxSeconds g k = Some r"
    using RandomDelay_returns by blast
  then show "\<exists>delay duration k'. RandomDelay minSeconds maxSeconds g k = Some (delay, duration, k')"
    by (cases r) auto
next
  fix delay duration k'
  assume r: "RandomDelay minSeconds maxSeconds g k = Some (delay, duration, k')"
  note b = RandomDelay_bounds [OF assms r]
  show "real_of_int minSeconds \<le> delay" using b by simp
  show "delay \<le> real_of_int maxSeconds" using b by simp
  show "minSeconds * 1000000000 \<le> duration" using b by simp
  show "duration \<le> maxSeconds * 1000000000" using b by simp
next
  assume "float64At g k \<noteq> 0"
  then show "RandomDelay minSeconds maxSeconds g k =
             (let mean = real_of_int (minSeconds + maxSeconds) / 2;
                  stdDev = real_of_int (maxSeconds - minSeconds) / 4;
                  z = sqrt (- 2 * ln (float64At g k)) * cos (2 * pi * float64At g (k + 1));
                  delay = max (real_of_int minSeconds)
                            (min (real_of_int maxSeconds) (mean + z * stdDev))
              in Some (delay, goTrunc (delay * 1000000000), k + 2))"
    using assms by (rule RandomDelay_first_draw [rotated])
qed

theorem RandomDelay_in_bounds_witness:
  "(1::int) < 3
   \<and> float64At \<lparr>float64At = \<lambda>k. if k = 1 then 1 / 4 else 1 / 2, intAt = \<lambda>k. 0\<rparr> 0 \<noteq> 0
   \<and> RandomDelay 1 3 \<lparr>float64At = \<lambda>k. if k = 1 then 1 / 4 else 1 / 2, intAt = \<lambda>k. 0\<rparr> 0
       = Some (2, 2000000000, 2)
   \<and> float64At \<lparr>float64At = \<lambda>k. if k = 0 then 0 else 1 / 2, intAt = \<lambda>k. 0\<rparr> (0 + 2 + 0) \<noteq> 0
   \<and> (\<exists>delay duration k'.
         RandomDelay 1 3 \<lparr>float64At = \<lambda>k. if k = 0 then 0 else 1 / 2, intAt = \<lambda>k. 0\<rparr> 0
           = Some (delay, duration, k')
         \<and> 1 \<le> delay \<and> delay \<le> 3 \<and> 1000000000 \<le> duration \<and> duration \<le> 3000000000)"
proof -
  let ?g = "\<lparr>float64At = \<lambda>k. if k = 1 then 1 / 4 else 1 / 2, intAt = \<lambda>k. 0\<rparr>"
  let ?z = "\<lparr>float64At = \<lambda>k. if k = 0 then 0 else 1 / 2, intAt = \<lambda>k. 0\<rparr>"
  have lt: "(1::int) < 3" by simp
  have g0: "float64At ?g 0 \<noteq> 0" by simp
  have z2: "float64At ?z (0 + 2 + 0) \<noteq> 0" by simp
  have c: "cos (2 * pi * (1 / 4)) = 0"
    by (simp add: cos_pi_half)
  have "RandomDelay 1 3 ?g 0 =
             (let mean = real_of_int (1 + 3) / 2;
                  stdDev = real_of_int (3 - 1) / 4;
                  z = sqrt (- 2 * ln (float64At ?g 0)) * cos (2 * pi * float64At ?g (0 + 1));
                  delay = max (real_of_int 1) (min (real_of_int 3) (mean + z * stdDev))
              in Some (delay, goTrunc (delay * 1000000000), 0 + 2))"
    using RandomDelay_in_bounds [OF lt, of ?g 0] g0 by blast
  then have v: "RandomDelay 1 3 ?g 0 = Some (2, 2000000000, 2)"
    using c by (simp add: Let_def goTrunc_def)
  obtain delay duration k' where r: "RandomDelay 1 3 ?z 0 = Some (delay, duration, k')"
    using RandomDelay_in_bounds [OF lt, of ?z 0] z2 by blast
  then have "real_of_int 1 \<le> delay \<and> delay \<le> real_of_int 3
            \<and> 1 * 1000000000 \<le> duration \<and> duration \<le> 3 * 1000000000"
    using RandomDelay_in_bounds [OF lt, of ?z 0] by blast
  then have "\<exists>delay duration k'. RandomDelay 1 3 ?z 0 = Some (delay, duration, k')
         \<and> 1 \<le> delay \<and> delay \<le> 3 \<and> 1000000000 \<le> duration \<and> duration \<le> 3000000000"
    using r by simp
  then show ?thesis using lt g0 z2 v by simp
qed

end
